theory Spec2Isabelle
  imports Main "HOL-Library.Word"
begin

section \<open>prost-build/src/libprotoc.cpp: the data model\<close>

text \<open>
  The file is a thin C++ layer between the protobuf compiler library and a caller that
  owns the output memory. The library's classes (\<open>FileDescriptor\<close>, \<open>DescriptorPool\<close>,
  \<open>DiskSourceTree\<close>, \<open>CodedOutputStream\<close>) are not part of the file: what the file uses of
  them is modelled below as records of functions, and the functions of the file itself
  are translated one by one, under their own names.

  Machine integers: \<open>size_t\<close> and pointers are 64-bit words, \<open>int\<close> is a 32-bit word read
  with \<open>sint\<close>; so are the line and column numbers of diagnostics. Adding one to the
  largest \<open>int\<close> is left undefined by C++; the model takes the two's complement result,
  the smallest \<open>int\<close>.

  A \<open>std::string\<close> is a list of bytes and may hold NUL bytes (the entry point builds its
  strings from a pointer and a length). Where the code passes \<open>c_str()\<close> to the \<open>%s\<close> of
  \<open>fprintf\<close>, only the bytes before the first NUL are printed: \<open>c_str\<close> below.
\<close>

type_synonym size_t = "64 word"
type_synonym ptr = "64 word"
type_synonym c_int = "32 word"
type_synonym byte = "8 word"

text \<open>\<open>const FileDescriptor*\<close>: the address of a descriptor owned by the pool.\<close>

type_synonym fd = nat

text \<open>
  What the file reads of a \<open>FileDescriptor\<close>: \<open>name()\<close> and the ordered list
  \<open>dependency(0) .. dependency(dependency_count() - 1)\<close> of pointers to other descriptors.
\<close>

record FileDescriptor =
  name :: string
  dependency :: "fd list"

text \<open>
  A \<open>FileDescriptorProto\<close>, as far as the file can tell one from another: the name and the
  names of the imports that \<open>CopyTo\<close> writes, and whether \<open>CopyJsonNameTo\<close> and
  \<open>CopySourceCodeInfoTo\<close> have been applied to it.
\<close>

record FileDescriptorProto =
  proto_name :: string
  proto_dependency :: "string list"
  json_name :: bool
  source_code_info :: bool

text \<open>\<open>output->Add()\<close>: a fresh, empty element of the repeated field.\<close>

definition Add :: FileDescriptorProto where
  "Add = \<lparr>proto_name = [], proto_dependency = [], json_name = False, source_code_info = False\<rparr>"

definition CopyTo ::
  "(fd \<Rightarrow> FileDescriptor) \<Rightarrow> fd \<Rightarrow> FileDescriptorProto \<Rightarrow> FileDescriptorProto" where
  "CopyTo files file p =
     p\<lparr>proto_name := name (files file),
       proto_dependency := map (\<lambda>d. name (files d)) (dependency (files file))\<rparr>"

definition CopyJsonNameTo ::
  "(fd \<Rightarrow> FileDescriptor) \<Rightarrow> fd \<Rightarrow> FileDescriptorProto \<Rightarrow> FileDescriptorProto" where
  "CopyJsonNameTo files file p = p\<lparr>json_name := True\<rparr>"

definition CopySourceCodeInfoTo ::
  "(fd \<Rightarrow> FileDescriptor) \<Rightarrow> fd \<Rightarrow> FileDescriptorProto \<Rightarrow> FileDescriptorProto" where
  "CopySourceCodeInfoTo files file p = p\<lparr>source_code_info := True\<rparr>"

text \<open>
  The caller's \<open>struct Buffer\<close>: two callbacks and the context they are called with. The
  type \<open>'c\<close> is everything behind the \<open>void*\<close> context, the memory of the region included;
  \<open>resize_buffer\<close> returns the base address and the caller's new state.
\<close>

record 'c Buffer =
  resize_buffer :: "'c \<Rightarrow> size_t \<Rightarrow> ptr \<times> 'c"
  buffer_capacity :: "'c \<Rightarrow> size_t"
  buffer_context :: 'c

text \<open>
  The fields of \<open>class BufferOutput\<close>; its \<open>impl\<close> pointer is the \<open>Buffer\<close> that every
  method below takes and returns.
\<close>

record BufferOutput =
  buffer_base :: ptr
  len :: size_t

text \<open>
  The two text streams the file writes to, one entry per line: \<open>std::cerr\<close> (also the
  \<open>stderr\<close> of \<open>fprintf\<close>) and \<open>std::clog\<close>.
\<close>

record Streams =
  cerr :: "string list"
  clog :: "string list"

datatype ostream = std_cerr | std_clog

text \<open>The members \<open>found_errors_\<close> and \<open>found_warnings_\<close> of \<open>class ErrorPrinter\<close>.\<close>

record ErrorPrinter =
  found_errors :: bool
  found_warnings :: bool

text \<open>
  \<open>DiskSourceTree\<close>: the result of \<open>DiskFileToVirtualFile\<close> with its two output strings, the
  reverse mapping, and the two texts the \<open>CANNOT_OPEN\<close> branch chooses between (both as
  the library leaves them after mapping the given input).
\<close>

datatype DiskFileToVirtualFileResult =
  SUCCESS string | SHADOWED string | CANNOT_OPEN | NO_MAPPING

record DiskSourceTree =
  DiskFileToVirtualFile :: "string \<Rightarrow> DiskFileToVirtualFileResult"
  VirtualFileToDiskFile :: "string \<Rightarrow> string option"
  GetLastErrorMessage :: "string \<Rightarrow> string"
  strerror_errno :: "string \<Rightarrow> string"

text \<open>
  \<open>DescriptorPool\<close> over the \<open>SourceTreeDescriptorDatabase\<close>: \<open>FindFileByName\<close> returns the
  descriptor or \<open>nullptr\<close> (\<open>None\<close>), and reports to the \<open>MultiFileErrorCollector\<close> it was
  given (\<open>RecordErrorsTo\<close>); the reports of one lookup are listed in order.
\<close>

datatype report =
  ReportError string c_int c_int string
| ReportWarning string c_int c_int string

record DescriptorPool =
  FindFileByName :: "string \<Rightarrow> fd option \<times> report list"
  descriptors :: "fd \<Rightarrow> FileDescriptor"

text \<open>
  The collaborators of one invocation, as functions of the include paths:
  the \<open>DiskSourceTree\<close> after \<open>MapPath(include, "")\<close> for each of them in order, the
  \<open>DescriptorPool\<close> over that tree, and the deterministic wire encoding of a
  \<open>FileDescriptorSet\<close>.
\<close>

record Collaborators =
  source_tree_for :: "string list \<Rightarrow> DiskSourceTree"
  descriptor_pool_for :: "string list \<Rightarrow> DescriptorPool"
  wire_encoding :: "FileDescriptorProto list \<Rightarrow> byte list"

section \<open>The functions of the file\<close>

subsection \<open>Loops\<close>

text \<open>
  A \<open>for\<close> loop over a vector whose body may not return: the state is threaded through
  the elements in order, and \<open>None\<close> (the body did not return) ends it.
\<close>

primrec for_each :: "('a \<Rightarrow> 's \<Rightarrow> 's option) \<Rightarrow> 'a list \<Rightarrow> 's \<Rightarrow> 's option" where
  "for_each body [] s = Some s"
| "for_each body (x # xs) s = Option.bind (body x s) (for_each body xs)"

lemma for_each_mono [partial_function_mono]:
  assumes "\<And>x s. mono_option (\<lambda>f. B f x s)"
  shows "mono_option (\<lambda>f. for_each (B f) xs s)"
  using assms by (induction xs arbitrary: s) (auto intro!: partial_function_mono)

subsection \<open>\<open>get_transitive_deps\<close>\<close>

text \<open>
  The state is the pair of \<open>already_seen\<close> and \<open>output\<close>. The recursion is the one of the
  code, with no bound on its depth: \<open>None\<close> is a call that does not return.
\<close>

partial_function (option) get_transitive_deps ::
  "(fd \<Rightarrow> FileDescriptor) \<Rightarrow> fd \<Rightarrow> bool \<Rightarrow> bool \<Rightarrow> fd set \<times> FileDescriptorProto list
     \<Rightarrow> (fd set \<times> FileDescriptorProto list) option" where
  "get_transitive_deps files file include_json_name include_source_code_info st =
     (if file \<in> fst st then Some st
      else Option.bind
             (for_each (\<lambda>d. get_transitive_deps files d include_json_name include_source_code_info)
                (dependency (files file)) (insert file (fst st), snd st))
             (\<lambda>st'.
                let new_descriptor = CopyTo files file Add;
                    new_descriptor = (if include_json_name
                                      then CopyJsonNameTo files file new_descriptor
                                      else new_descriptor);
                    new_descriptor = (if include_source_code_info
                                      then CopySourceCodeInfoTo files file new_descriptor
                                      else new_descriptor)
                in Some (fst st', snd st' @ [new_descriptor])))"

declare get_transitive_deps.simps [code]

text \<open>
  The first block of \<open>write_descriptor_set\<close> (the inner one): \<open>file_set\<close> after the loop
  over \<open>parsed_files\<close>, with one \<open>already_seen\<close> for all of them.
\<close>

definition build_file_set ::
  "(fd \<Rightarrow> FileDescriptor) \<Rightarrow> fd list \<Rightarrow> FileDescriptorProto list option" where
  "build_file_set files parsed_files =
     map_option snd
       (for_each (\<lambda>parsed. get_transitive_deps files parsed True True) parsed_files ({}, []))"

subsection \<open>\<open>BufferOutput\<close>\<close>

text \<open>
  \<open>Next\<close> returns its \<open>bool\<close>, \<open>*data\<close>, \<open>*size\<close>, the object and the caller's buffer.
  \<open>std::numeric_limits<int>::max()\<close> is converted to \<open>size_t\<close> for the sum, and the
  difference is cut to an \<open>int\<close> when it is stored in \<open>*size\<close>.
\<close>

definition Next ::
  "'c Buffer \<Rightarrow> BufferOutput \<Rightarrow> bool \<times> ptr \<times> c_int \<times> BufferOutput \<times> 'c Buffer" where
  "Next impl this =
     (let old_size = len this;
          cur_cap = buffer_capacity impl (buffer_context impl);
          new_size = (if old_size < cur_cap then cur_cap else old_size * 2);
          new_size = min new_size (old_size + 0x7FFFFFFF);
          new_size = max new_size 1024;
          r = resize_buffer impl (buffer_context impl) new_size
      in (True, fst r + old_size, ucast (new_size - old_size),
          this\<lparr>buffer_base := fst r, len := new_size\<rparr>,
          impl\<lparr>buffer_context := snd r\<rparr>))"

text \<open>\<open>count\<close> is an \<open>int\<close>: it is sign-extended to \<open>size_t\<close> for the subtraction.\<close>

definition BackUp :: "'c Buffer \<Rightarrow> c_int \<Rightarrow> BufferOutput \<Rightarrow> BufferOutput \<times> 'c Buffer" where
  "BackUp impl count this =
     (let r = resize_buffer impl (buffer_context impl) (len this - scast count)
      in (this\<lparr>buffer_base := fst r\<rparr>, impl\<lparr>buffer_context := snd r\<rparr>))"

definition ByteCount :: "BufferOutput \<Rightarrow> 64 word" where
  "ByteCount this = len this"

text \<open>The constructor: \<open>buffer_base = nullptr\<close>, \<open>len = 0\<close>.\<close>

definition BufferOutput_new :: BufferOutput where
  "BufferOutput_new = \<lparr>buffer_base = 0, len = 0\<rparr>"

subsection \<open>The serializer, as far as it drives \<open>BufferOutput\<close>\<close>

text \<open>
  \<open>CodedOutputStream\<close> over a \<open>ZeroCopyOutputStream\<close> is library code. It is modelled by the
  protocol of that interface: it asks for a region with \<open>Next\<close> when it is constructed and
  whenever the last one is full, fails when \<open>Next\<close> returns false, writes its bytes into
  the regions in order, and gives the unused tail of the last region back with \<open>BackUp\<close>
  when it is destroyed. A write of bytes at an address acts on the caller's state through
  \<open>store\<close>. \<open>None\<close> is a serializer that never finishes (regions of no size for ever).
\<close>

partial_function (option) write_through ::
  "('c \<Rightarrow> ptr \<Rightarrow> byte list \<Rightarrow> 'c) \<Rightarrow> byte list \<Rightarrow> BufferOutput \<times> 'c Buffer
     \<Rightarrow> (bool \<times> BufferOutput \<times> 'c Buffer) option" where
  "write_through store bytes st =
     (let r = Next (snd st) (fst st);
          ok = fst r;
          data = fst (snd r);
          room = nat (sint (fst (snd (snd r))));
          this = fst (snd (snd (snd r)));
          impl = snd (snd (snd (snd r)))
      in if \<not> ok then Some (False, this, impl)
         else if length bytes \<le> room then
           (let impl = impl\<lparr>buffer_context := store (buffer_context impl) data bytes\<rparr>
            in if length bytes < room
               then Some (True, BackUp impl (word_of_nat (room - length bytes)) this)
               else Some (True, this, impl))
         else write_through store (drop room bytes)
                (this, impl\<lparr>buffer_context := store (buffer_context impl) data (take room bytes)\<rparr>))"

declare write_through.simps [code]

definition SerializeToCodedStream ::
  "(FileDescriptorProto list \<Rightarrow> byte list) \<Rightarrow> ('c \<Rightarrow> ptr \<Rightarrow> byte list \<Rightarrow> 'c)
     \<Rightarrow> FileDescriptorProto list \<Rightarrow> BufferOutput \<times> 'c Buffer
     \<Rightarrow> (bool \<times> BufferOutput \<times> 'c Buffer) option" where
  "SerializeToCodedStream encode store file_set coded_out =
     write_through store (encode file_set) coded_out"

subsection \<open>\<open>write_descriptor_set\<close>, the inner one\<close>

definition write_descriptor_set ::
  "(FileDescriptorProto list \<Rightarrow> byte list) \<Rightarrow> ('c \<Rightarrow> ptr \<Rightarrow> byte list \<Rightarrow> 'c)
     \<Rightarrow> (fd \<Rightarrow> FileDescriptor) \<Rightarrow> fd list \<Rightarrow> 'c Buffer \<Rightarrow> (bool \<times> 'c Buffer) option" where
  "write_descriptor_set encode store files parsed_files output =
     Option.bind (build_file_set files parsed_files)
       (\<lambda>file_set.
          Option.bind
            (SerializeToCodedStream encode store file_set (BufferOutput_new, output))
            (\<lambda>r. if \<not> fst r then Some (False, snd (snd r)) else Some (True, snd (snd r))))"

subsection \<open>\<open>ErrorPrinter\<close>\<close>

function show_nat :: "nat \<Rightarrow> string" where
  "show_nat n =
     (if n < 10 then [''0123456789'' ! n] else show_nat (n div 10) @ [''0123456789'' ! (n mod 10)])"
  by pat_completeness auto
termination
  by (relation "measure id") auto

definition show_int :: "int \<Rightarrow> string" where
  "show_int i = (if i < 0 then CHR ''-'' # show_nat (nat (- i)) else show_nat (nat i))"

definition put_line :: "ostream \<Rightarrow> string \<Rightarrow> Streams \<Rightarrow> Streams" where
  "put_line out l io =
     (case out of std_cerr \<Rightarrow> io\<lparr>cerr := cerr io @ [l]\<rparr> | std_clog \<Rightarrow> io\<lparr>clog := clog io @ [l]\<rparr>)"

text \<open>
  \<open>line + 1\<close> and \<open>column + 1\<close> are sums of \<open>int\<close>s, printed in decimal with their sign.
\<close>

definition AddErrorOrWarning ::
  "string \<Rightarrow> c_int \<Rightarrow> c_int \<Rightarrow> string \<Rightarrow> string \<Rightarrow> ostream \<Rightarrow> Streams \<Rightarrow> Streams" where
  "AddErrorOrWarning filename line column message type out io =
     (let l = filename;
          l = (if line \<noteq> - 1
               then l @ '':'' @ show_int (sint (line + 1)) @ '':'' @ show_int (sint (column + 1))
               else l);
          l = (if type = ''warning'' then l @ '': warning: '' @ message else l @ '': '' @ message)
      in put_line out l io)"

definition ErrorPrinter_new :: ErrorPrinter where
  "ErrorPrinter_new = \<lparr>found_errors = False, found_warnings = False\<rparr>"

text \<open>\<open>MultiFileErrorCollector\<close>: file, line, column.\<close>

definition AddError ::
  "string \<Rightarrow> c_int \<Rightarrow> c_int \<Rightarrow> string \<Rightarrow> ErrorPrinter \<times> Streams \<Rightarrow> ErrorPrinter \<times> Streams" where
  "AddError filename line column message s =
     ((fst s)\<lparr>found_errors := True\<rparr>,
      AddErrorOrWarning filename line column message ''error'' std_cerr (snd s))"

definition AddWarning ::
  "string \<Rightarrow> c_int \<Rightarrow> c_int \<Rightarrow> string \<Rightarrow> ErrorPrinter \<times> Streams \<Rightarrow> ErrorPrinter \<times> Streams" where
  "AddWarning filename line column message s =
     ((fst s)\<lparr>found_warnings := True\<rparr>,
      AddErrorOrWarning filename line column message ''warning'' std_clog (snd s))"

text \<open>\<open>io::ErrorCollector\<close>: line and column only.\<close>

definition AddError_io ::
  "c_int \<Rightarrow> c_int \<Rightarrow> string \<Rightarrow> ErrorPrinter \<times> Streams \<Rightarrow> ErrorPrinter \<times> Streams" where
  "AddError_io line column message s = AddError ''input'' line column message s"

definition AddWarning_io ::
  "c_int \<Rightarrow> c_int \<Rightarrow> string \<Rightarrow> ErrorPrinter \<times> Streams \<Rightarrow> ErrorPrinter \<times> Streams" where
  "AddWarning_io line column message s =
     (fst s, AddErrorOrWarning ''input'' line column message ''warning'' std_clog (snd s))"

text \<open>
  \<open>DescriptorPool::ErrorCollector\<close>: file and element name (the descriptor and the
  location, which the bodies do not read, are left out).
\<close>

definition AddError_pool ::
  "string \<Rightarrow> string \<Rightarrow> string \<Rightarrow> ErrorPrinter \<times> Streams \<Rightarrow> ErrorPrinter \<times> Streams" where
  "AddError_pool filename element_name message s =
     (fst s, AddErrorOrWarning filename (- 1) (- 1) message ''error'' std_cerr (snd s))"

definition AddWarning_pool ::
  "string \<Rightarrow> string \<Rightarrow> string \<Rightarrow> ErrorPrinter \<times> Streams \<Rightarrow> ErrorPrinter \<times> Streams" where
  "AddWarning_pool filename element_name message s =
     (fst s, AddErrorOrWarning filename (- 1) (- 1) message ''warning'' std_clog (snd s))"

definition FoundErrors :: "ErrorPrinter \<Rightarrow> bool" where
  "FoundErrors this = found_errors this"

definition FoundWarnings :: "ErrorPrinter \<Rightarrow> bool" where
  "FoundWarnings this = found_warnings this"

text \<open>A report of the pool reaches the printer through \<open>MultiFileErrorCollector\<close>.\<close>

fun deliver :: "report \<Rightarrow> ErrorPrinter \<times> Streams \<Rightarrow> ErrorPrinter \<times> Streams" where
  "deliver (ReportError filename line column message) s = AddError filename line column message s"
| "deliver (ReportWarning filename line column message) s =
     AddWarning filename line column message s"

subsection \<open>\<open>parse_input_files\<close>\<close>

fun parse_input_files ::
  "string list \<Rightarrow> DescriptorPool \<Rightarrow> fd list \<Rightarrow> ErrorPrinter \<times> Streams
     \<Rightarrow> bool \<times> fd list \<times> (ErrorPrinter \<times> Streams)" where
  "parse_input_files [] descriptor_pool parsed_files s = (True, parsed_files, s)"
| "parse_input_files (input # rest) descriptor_pool parsed_files s =
     (let r = FindFileByName descriptor_pool input;
          s = fold deliver (snd r) s
      in case fst r of
           None \<Rightarrow> (False, parsed_files, s)
         | Some parsed_file \<Rightarrow>
             parse_input_files rest descriptor_pool (parsed_files @ [parsed_file]) s)"

subsection \<open>\<open>make_inputs_relative\<close>\<close>

text \<open>
  What \<open>fprintf\<close> prints for a \<open>%s\<close> that is given \<open>s.c_str()\<close>: the bytes of \<open>s\<close> before its
  first NUL byte.
\<close>

definition c_str :: "string \<Rightarrow> string" where
  "c_str s = takeWhile (\<lambda>c. c \<noteq> CHR 0x00) s"

text \<open>The three lines the function prints to \<open>stderr\<close>, each without its final newline.\<close>

definition shadowed_message :: "string \<Rightarrow> string \<Rightarrow> string" where
  "shadowed_message input_file shadowing_disk_file =
     c_str input_file @ '': Input is shadowed by an include in '' @ [CHR 0x22] @
     c_str shadowing_disk_file @
     [CHR 0x22] @ ''.Either use the latter file as your input or reorder the'' @
     ''includes so that the former file'' @ [CHR 0x27] @ ''s location comes first.''"

definition cannot_open_message :: "DiskSourceTree \<Rightarrow> string \<Rightarrow> string" where
  "cannot_open_message source_tree input_file =
     (let error_str = (if GetLastErrorMessage source_tree input_file = []
                       then strerror_errno source_tree input_file
                       else GetLastErrorMessage source_tree input_file)
      in ''Could not map to virtual file: '' @ c_str input_file @ '': '' @ c_str error_str)"

definition no_mapping_message :: "string \<Rightarrow> string" where
  "no_mapping_message input_file =
     c_str input_file @ '': File does not reside within any include path.''"

text \<open>
  The result is the \<open>bool\<close>, the vector \<open>inputs\<close> as the loop leaves it, and the streams.
\<close>

fun make_inputs_relative ::
  "string list \<Rightarrow> DiskSourceTree \<Rightarrow> Streams \<Rightarrow> bool \<times> string list \<times> Streams" where
  "make_inputs_relative [] source_tree io = (True, [], io)"
| "make_inputs_relative (input_file # rest) source_tree io =
     (case DiskFileToVirtualFile source_tree input_file of
        SUCCESS virtual_file \<Rightarrow>
          (let r = make_inputs_relative rest source_tree io
           in (fst r, virtual_file # fst (snd r), snd (snd r)))
      | SHADOWED shadowing_disk_file \<Rightarrow>
          (False, input_file # rest,
           put_line std_cerr (shadowed_message input_file shadowing_disk_file) io)
      | CANNOT_OPEN \<Rightarrow>
          (False, input_file # rest,
           put_line std_cerr (cannot_open_message source_tree input_file) io)
      | NO_MAPPING \<Rightarrow>
          (case VirtualFileToDiskFile source_tree input_file of
             Some disk_file \<Rightarrow> (True, input_file # rest, io)
           | None \<Rightarrow>
               (False, input_file # rest,
                put_line std_cerr (no_mapping_message input_file) io)))"

subsection \<open>\<open>write_descriptor_set\<close>, the \<open>extern "C"\<close> entry point\<close>

text \<open>
  The result is the status, the caller's buffer and the streams; \<open>None\<close> when the call
  does not return.
\<close>

definition write_descriptor_set_extern ::
  "Collaborators \<Rightarrow> ('c \<Rightarrow> ptr \<Rightarrow> byte list \<Rightarrow> 'c) \<Rightarrow> string list \<Rightarrow> string list
     \<Rightarrow> 'c Buffer \<Rightarrow> Streams \<Rightarrow> (int \<times> 'c Buffer \<times> Streams) option" where
  "write_descriptor_set_extern lib store input_files includes_paths output io =
     (let inputs = input_files;
          includes = includes_paths;
          source_tree = source_tree_for lib includes;
          m = make_inputs_relative inputs source_tree io
      in if \<not> fst m then Some (1, output, snd (snd m))
         else
           let inputs = fst (snd m);
               error_collector = ErrorPrinter_new;
               descriptor_pool = descriptor_pool_for lib includes;
               p = parse_input_files inputs descriptor_pool [] (error_collector, snd (snd m));
               parsed = fst (snd p);
               io = snd (snd (snd p))
           in if \<not> fst p then Some (1, output, io)
              else Option.bind
                     (write_descriptor_set (wire_encoding lib) store
                        (descriptors descriptor_pool) parsed output)
                     (\<lambda>w. if \<not> fst w then Some (1, snd w, io) else Some (0, snd w, io)))"

section \<open>The caller's side of the buffer\<close>

text \<open>
  Modelled from the spec: the two operations behind \<open>struct Buffer\<close> are implemented by the
  caller (the Rust side of prost-build), which is not among the sources. The specification
  describes them as \<open>grow-or-shrink-to(new_size) \<rightarrow> base_address\<close> and
  \<open>current_capacity() \<rightarrow> size\<close> on a caller-owned memory region, where a resize may move the
  base address. The model is a byte vector: a resize keeps the bytes below the new size,
  fills the rest with zeros and places the region at an address the caller chooses
  (\<open>place\<close>, by the number of the call and the size); the capacity reported is the caller's
  choice as well (\<open>slack\<close>). A write of bytes at an address changes the bytes at its offset
  from the current base address; a write that does not lie inside the region is recorded in
  \<open>vec_faulted\<close>.
\<close>

record Vec =
  vec_bytes :: "byte list"
  vec_addr :: ptr
  vec_calls :: nat
  vec_faulted :: bool

definition vec_resize :: "(nat \<Rightarrow> size_t \<Rightarrow> ptr) \<Rightarrow> Vec \<Rightarrow> size_t \<Rightarrow> ptr \<times> Vec" where
  "vec_resize place v n =
     (place (vec_calls v) n,
      v\<lparr>vec_bytes := take (unat n) (vec_bytes v @ replicate (unat n) 0),
        vec_addr := place (vec_calls v) n,
        vec_calls := Suc (vec_calls v)\<rparr>)"

definition vec_capacity :: "(nat \<Rightarrow> size_t) \<Rightarrow> Vec \<Rightarrow> size_t" where
  "vec_capacity slack v = slack (vec_calls v)"

definition vec_store :: "Vec \<Rightarrow> ptr \<Rightarrow> byte list \<Rightarrow> Vec" where
  "vec_store v a bs =
     (let off = unat (a - vec_addr v)
      in if off + length bs \<le> length (vec_bytes v)
         then v\<lparr>vec_bytes := take off (vec_bytes v) @ bs @ drop (off + length bs) (vec_bytes v)\<rparr>
         else v\<lparr>vec_faulted := True\<rparr>)"

definition vec_buffer :: "(nat \<Rightarrow> size_t \<Rightarrow> ptr) \<Rightarrow> (nat \<Rightarrow> size_t) \<Rightarrow> Vec \<Rightarrow> Vec Buffer" where
  "vec_buffer place slack v =
     \<lparr>resize_buffer = vec_resize place, buffer_capacity = vec_capacity slack, buffer_context = v\<rparr>"

section \<open>Notions the properties are stated with\<close>

text \<open>
  The dependency edges of the descriptors, the descriptors reachable from a set of roots,
  and the element that \<open>get_transitive_deps\<close> appends for a descriptor.
\<close>

definition dep_edges :: "(fd \<Rightarrow> FileDescriptor) \<Rightarrow> (fd \<times> fd) set" where
  "dep_edges files = {(f, d). d \<in> set (dependency (files f))}"

definition reachable :: "(fd \<Rightarrow> FileDescriptor) \<Rightarrow> fd set \<Rightarrow> fd set" where
  "reachable files roots = (dep_edges files)\<^sup>* `` roots"

definition descriptor_proto ::
  "(fd \<Rightarrow> FileDescriptor) \<Rightarrow> bool \<Rightarrow> bool \<Rightarrow> fd \<Rightarrow> FileDescriptorProto" where
  "descriptor_proto files jn sci file =
     (let p = CopyTo files file Add;
          p = (if jn then CopyJsonNameTo files file p else p)
      in if sci then CopySourceCodeInfoTo files file p else p)"

fun dep_ordered :: "(fd \<Rightarrow> FileDescriptor) \<Rightarrow> fd set \<Rightarrow> fd list \<Rightarrow> bool" where
  "dep_ordered files before [] = True"
| "dep_ordered files before (n # ns) =
     ((\<forall>d \<in> set (dependency (files n)). d \<in> before \<or> n \<in> reachable files {d}) \<and>
      dep_ordered files (insert n before) ns)"

definition visit_spec :: "(fd \<Rightarrow> FileDescriptor) \<Rightarrow> fd set \<Rightarrow> fd set \<Rightarrow> fd list \<Rightarrow> bool" where
  "visit_spec files starts seen ns \<longleftrightarrow>
     distinct ns \<and> set ns \<inter> seen = {} \<and> starts \<subseteq> seen \<union> set ns \<and>
     set ns \<subseteq> reachable files starts \<and>
     (\<forall>n \<in> set ns. set (dependency (files n)) \<subseteq> seen \<union> set ns) \<and>
     dep_ordered files seen ns"

text \<open>
  The target size of \<open>Next\<close> in the words of the specification, on natural numbers:
  the granted capacity when the committed length is below it, otherwise twice the
  committed length; at most \<open>INT_MAX\<close> more than the committed length; at least 1024 for
  the first allocation (committed length 0).
\<close>

definition spec_target :: "nat \<Rightarrow> nat \<Rightarrow> nat" where
  "spec_target committed granted =
     (let target = (if committed < granted then granted else 2 * committed);
          target = min target (committed + 2147483647)
      in if committed = 0 then max target 1024 else target)"

text \<open>The size \<open>Next\<close> asks the caller for.\<close>

definition next_size :: "size_t \<Rightarrow> size_t \<Rightarrow> size_t" where
  "next_size old_size cur_cap =
     max (min (if old_size < cur_cap then cur_cap else old_size * 2) (old_size + 0x7FFFFFFF)) 1024"

text \<open>The name an input has after \<open>make_inputs_relative\<close> has mapped it.\<close>

definition virtual_name :: "DiskSourceTree \<Rightarrow> string \<Rightarrow> string" where
  "virtual_name source_tree input_file =
     (case DiskFileToVirtualFile source_tree input_file of
        SUCCESS virtual_file \<Rightarrow> virtual_file
      | _ \<Rightarrow> input_file)"

text \<open>
  The same descriptors at other addresses: \<open>\<pi>\<close> maps the address of each descriptor of
  one pool to the address of its copy in the other.
\<close>

definition renamed_files :: "(fd \<Rightarrow> fd) \<Rightarrow> (fd \<Rightarrow> FileDescriptor) \<Rightarrow> (fd \<Rightarrow> FileDescriptor) \<Rightarrow> bool" where
  "renamed_files \<pi> files files' \<longleftrightarrow>
     (\<forall>p. name (files' (\<pi> p)) = name (files p) \<and>
          dependency (files' (\<pi> p)) = map \<pi> (dependency (files p)))"

definition renamed_pool :: "(fd \<Rightarrow> fd) \<Rightarrow> DescriptorPool \<Rightarrow> DescriptorPool \<Rightarrow> bool" where
  "renamed_pool \<pi> pool pool' \<longleftrightarrow>
     renamed_files \<pi> (descriptors pool) (descriptors pool') \<and>
     (\<forall>x. FindFileByName pool' x =
            (map_option \<pi> (fst (FindFileByName pool x)), snd (FindFileByName pool x)))"

section \<open>Example inputs\<close>

text \<open>
  A diamond of imports (\<open>app\<close> imports \<open>left\<close> and \<open>right\<close>, which both import \<open>base\<close>) and
  two files that import each other.
\<close>

definition diamond_files :: "fd \<Rightarrow> FileDescriptor" where
  "diamond_files p =
     (if p = 0 then \<lparr>name = ''app.proto'', dependency = [1, 2]\<rparr>
      else if p = 1 then \<lparr>name = ''left.proto'', dependency = [3]\<rparr>
      else if p = 2 then \<lparr>name = ''right.proto'', dependency = [3]\<rparr>
      else if p = 3 then \<lparr>name = ''base.proto'', dependency = []\<rparr>
      else \<lparr>name = [], dependency = []\<rparr>)"

definition cyclic_files :: "fd \<Rightarrow> FileDescriptor" where
  "cyclic_files p =
     (if p = 0 then \<lparr>name = ''a.proto'', dependency = [1]\<rparr>
      else if p = 1 then \<lparr>name = ''b.proto'', dependency = [0]\<rparr>
      else \<lparr>name = [], dependency = []\<rparr>)"

text \<open>Streams nothing has been written to.\<close>

definition no_output :: Streams where
  "no_output = \<lparr>cerr = [], clog = []\<rparr>"

text \<open>
  A caller that records the sizes it is asked for, and one whose resize operation returns
  the null address and that also records the writes made through the addresses handed out.
\<close>

definition recording_buffer :: "size_t list Buffer" where
  "recording_buffer =
     \<lparr>resize_buffer = (\<lambda>c n. (0x1000, c @ [n])), buffer_capacity = (\<lambda>c. 0), buffer_context = []\<rparr>"

definition trace_store ::
  "size_t list \<times> (ptr \<times> byte list) list \<Rightarrow> ptr \<Rightarrow> byte list
     \<Rightarrow> size_t list \<times> (ptr \<times> byte list) list" where
  "trace_store c a bs = (fst c, snd c @ [(a, bs)])"

definition failing_buffer :: "(size_t list \<times> (ptr \<times> byte list) list) Buffer" where
  "failing_buffer =
     \<lparr>resize_buffer = (\<lambda>c n. (0, (fst c @ [n], snd c))),
      buffer_capacity = (\<lambda>c. 0),
      buffer_context = ([], [])\<rparr>"

text \<open>
  Source trees: one where no input can be opened although every name maps back to a disk
  file, and one with the include path \<open>/src\<close>, a file that is shadowed, a file that cannot
  be opened and a logical name \<open>b.proto\<close> that maps back to a disk file.
\<close>

definition unreadable_tree :: DiskSourceTree where
  "unreadable_tree =
     \<lparr>DiskFileToVirtualFile = (\<lambda>x. CANNOT_OPEN),
      VirtualFileToDiskFile = (\<lambda>x. Some (''/src/'' @ x)),
      GetLastErrorMessage = (\<lambda>x. ''Permission denied''),
      strerror_errno = (\<lambda>x. ''Permission denied'')\<rparr>"

definition project_tree :: DiskSourceTree where
  "project_tree =
     \<lparr>DiskFileToVirtualFile =
        (\<lambda>x. if x = ''/src/a.proto'' then SUCCESS ''a.proto''
             else if x = ''/src/missing.proto'' then SUCCESS ''missing.proto''
             else if x = ''/shadow/a.proto'' then SHADOWED ''/src/a.proto''
             else if x = ''/src/locked.proto'' then CANNOT_OPEN
             else NO_MAPPING),
      VirtualFileToDiskFile = (\<lambda>x. if x = ''b.proto'' then Some ''/src/b.proto'' else None),
      GetLastErrorMessage = (\<lambda>x. ''Permission denied''),
      strerror_errno = (\<lambda>x. ''No such file or directory'')\<rparr>"

text \<open>
  A pool over the diamond that knows \<open>a.proto\<close> and \<open>b.proto\<close> and reports an error for
  every other name; the same pool with its descriptors 16 addresses further; two vectors
  of a caller.
\<close>

definition example_pool :: DescriptorPool where
  "example_pool =
     \<lparr>FindFileByName =
        (\<lambda>x. if x = ''a.proto'' then (Some 0, [ReportWarning ''a.proto'' 2 0 ''Import left.proto is unused.''])
             else if x = ''b.proto'' then (Some 1, [])
             else (None, [ReportError x (- 1) 0 ''File not found.''])),
      descriptors = diamond_files\<rparr>"

definition example_lib :: Collaborators where
  "example_lib =
     \<lparr>source_tree_for = (\<lambda>includes. project_tree),
      descriptor_pool_for = (\<lambda>includes. example_pool),
      wire_encoding = (\<lambda>file_set. map (\<lambda>p. of_nat (length (proto_name p))) file_set)\<rparr>"

definition moved_files :: "fd \<Rightarrow> FileDescriptor" where
  "moved_files p =
     (if 16 \<le> p
      then \<lparr>name = name (diamond_files (p - 16)),
            dependency = map (\<lambda>q. q + 16) (dependency (diamond_files (p - 16)))\<rparr>
      else \<lparr>name = [], dependency = []\<rparr>)"

definition moved_pool :: DescriptorPool where
  "moved_pool =
     \<lparr>FindFileByName =
        (\<lambda>x. (map_option (\<lambda>p. p + 16) (fst (FindFileByName example_pool x)),
              snd (FindFileByName example_pool x))),
      descriptors = moved_files\<rparr>"

definition moved_lib :: Collaborators where
  "moved_lib = example_lib\<lparr>descriptor_pool_for := (\<lambda>includes. moved_pool)\<rparr>"

definition empty_vec :: Vec where
  "empty_vec = \<lparr>vec_bytes = [], vec_addr = 0, vec_calls = 0, vec_faulted = False\<rparr>"

definition used_vec :: Vec where
  "used_vec = \<lparr>vec_bytes = [9, 9, 9], vec_addr = 0x2000, vec_calls = 0, vec_faulted = False\<rparr>"

section \<open>The transitive closure\<close>

lemma get_transitive_deps_unfold:
  "get_transitive_deps files f jn sci (seen, out) =
     (if f \<in> seen then Some (seen, out)
      else Option.bind
             (for_each (\<lambda>d. get_transitive_deps files d jn sci) (dependency (files f))
                (insert f seen, out))
             (\<lambda>st'. Some (fst st', snd st' @ [descriptor_proto files jn sci f])))"
  by (subst get_transitive_deps.simps) (simp add: descriptor_proto_def Let_def)

lemma reachable_refl: "roots \<subseteq> reachable files roots"
  by (auto simp: reachable_def)

lemma reachable_mono: "A \<subseteq> B \<Longrightarrow> reachable files A \<subseteq> reachable files B"
  by (auto simp: reachable_def)

lemma reachable_dep:
  "n \<in> reachable files A \<Longrightarrow> d \<in> set (dependency (files n)) \<Longrightarrow> d \<in> reachable files A"
  unfolding reachable_def dep_edges_def
  by (auto intro: rtrancl_into_rtrancl)

lemma reachable_deps_subset:
  "reachable files (set (dependency (files f))) \<subseteq> reachable files {f}"
  unfolding reachable_def dep_edges_def
  by (auto intro: converse_rtrancl_into_rtrancl)

lemma reachable_subset_closed:
  assumes "roots \<subseteq> S" and "\<forall>n \<in> S. set (dependency (files n)) \<subseteq> S"
  shows "reachable files roots \<subseteq> S"
proof
  fix x assume "x \<in> reachable files roots"
  then obtain r where r: "r \<in> roots" and p: "(r, x) \<in> (dep_edges files)\<^sup>*"
    by (auto simp: reachable_def)
  from p show "x \<in> S"
  proof (induction rule: rtrancl_induct)
    case base
    with r assms(1) show ?case by auto
  next
    case (step y z)
    with assms(2) show ?case by (auto simp: dep_edges_def)
  qed
qed

lemma dep_ordered_append:
  "dep_ordered files A (xs @ ys) \<longleftrightarrow>
     dep_ordered files A xs \<and> dep_ordered files (A \<union> set xs) ys"
  by (induction xs arbitrary: A) (auto simp: insert_commute Un_commute)

lemma dep_ordered_nth:
  "dep_ordered files A ns \<Longrightarrow> i < length ns \<Longrightarrow> d \<in> set (dependency (files (ns ! i))) \<Longrightarrow>
     d \<in> A \<or> d \<in> set (take i ns) \<or> ns ! i \<in> reachable files {d}"
proof (induction ns arbitrary: A i)
  case Nil
  then show ?case by simp
next
  case (Cons n ns)
  show ?case
  proof (cases i)
    case 0
    with Cons.prems show ?thesis by auto
  next
    case (Suc k)
    with Cons.prems have "dep_ordered files (insert n A) ns" "k < length ns"
      "d \<in> set (dependency (files (ns ! k)))" by auto
    from Cons.IH [OF this]
    show ?thesis using Suc by auto
  qed
qed

lemma visit_spec_Nil: "visit_spec files {} seen []"
  by (simp add: visit_spec_def)

lemma visit_spec_seen: "f \<in> seen \<Longrightarrow> visit_spec files {f} seen []"
  by (simp add: visit_spec_def)

lemma visit_spec_append:
  assumes a: "visit_spec files {d} seen ns1"
    and b: "visit_spec files D (seen \<union> set ns1) ns2"
  shows "visit_spec files (insert d D) seen (ns1 @ ns2)"
proof -
  have r1: "reachable files {d} \<subseteq> reachable files (insert d D)"
    by (rule reachable_mono) simp
  have r2: "reachable files D \<subseteq> reachable files (insert d D)"
    by (rule reachable_mono) auto
  have o: "dep_ordered files seen (ns1 @ ns2)"
    using a b by (simp add: dep_ordered_append visit_spec_def)
  have c: "\<forall>n \<in> set (ns1 @ ns2). set (dependency (files n)) \<subseteq> seen \<union> set (ns1 @ ns2)"
    using a b unfolding visit_spec_def by auto
  have d: "distinct (ns1 @ ns2)" "set (ns1 @ ns2) \<inter> seen = {}"
    using a b unfolding visit_spec_def by auto
  have s: "insert d D \<subseteq> seen \<union> set (ns1 @ ns2)"
    using a b unfolding visit_spec_def by auto
  have r: "set (ns1 @ ns2) \<subseteq> reachable files (insert d D)"
    using a b r1 r2 unfolding visit_spec_def by auto
  from o c d s r show ?thesis unfolding visit_spec_def by blast
qed

lemma dep_ordered_drop_ancestor:
  "dep_ordered files (insert f seen) ns \<Longrightarrow> set ns \<subseteq> reachable files {f} \<Longrightarrow>
     dep_ordered files seen ns"
proof (induction ns arbitrary: seen)
  case Nil
  then show ?case by simp
next
  case (Cons n ns)
  have "dep_ordered files (insert n seen) ns"
    using Cons.IH [of "insert n seen"] Cons.prems by (simp add: insert_commute)
  moreover have "\<forall>d \<in> set (dependency (files n)). d \<in> seen \<or> n \<in> reachable files {d}"
    using Cons.prems by auto
  ultimately show ?case by simp
qed

lemma visit_spec_finish:
  assumes a: "visit_spec files (set (dependency (files f))) (insert f seen) ns"
    and f: "f \<notin> seen"
  shows "visit_spec files {f} seen (ns @ [f])"
proof -
  have sub: "set ns \<subseteq> reachable files {f}"
    using a reachable_deps_subset [of files f] unfolding visit_spec_def by blast
  have self: "f \<in> reachable files {f}"
    using reachable_refl [of "{f}" files] by simp
  have fn: "f \<notin> set ns"
    using a unfolding visit_spec_def by auto
  have deps: "set (dependency (files f)) \<subseteq> insert f seen \<union> set ns"
    using a unfolding visit_spec_def by auto
  have o1: "dep_ordered files (insert f seen) ns"
    using a unfolding visit_spec_def by simp
  have o2: "dep_ordered files seen ns"
    by (rule dep_ordered_drop_ancestor [OF o1 sub])
  have o3: "dep_ordered files (seen \<union> set ns) [f]"
    using deps self by auto
  have o: "dep_ordered files seen (ns @ [f])"
    using o2 o3 by (simp add: dep_ordered_append)
  have c: "\<forall>n \<in> set (ns @ [f]). set (dependency (files n)) \<subseteq> seen \<union> set (ns @ [f])"
    using a deps unfolding visit_spec_def by auto
  have d: "distinct (ns @ [f])" "set (ns @ [f]) \<inter> seen = {}"
    using a f fn unfolding visit_spec_def by auto
  have r: "set (ns @ [f]) \<subseteq> reachable files {f}"
    using sub self by auto
  from o c d r show ?thesis unfolding visit_spec_def by auto
qed

lemma for_each_total:
  assumes body: "\<And>d seen out. d \<in> R \<Longrightarrow> card (R - seen) \<le> n \<Longrightarrow>
      \<exists>ns. body d (seen, out) = Some (seen \<union> set ns, out @ map mk ns) \<and> visit_spec files {d} seen ns"
    and "set ds \<subseteq> R" and "card (R - seen) \<le> n" and "finite R"
  shows "\<exists>ns. for_each body ds (seen, out) = Some (seen \<union> set ns, out @ map mk ns) \<and>
           visit_spec files (set ds) seen ns"
  using assms(2,3)
proof (induction ds arbitrary: seen out)
  case Nil
  show ?case by (rule exI [of _ "[]"]) (simp add: visit_spec_Nil)
next
  case (Cons d ds)
  from Cons.prems obtain ns1 where
    b1: "body d (seen, out) = Some (seen \<union> set ns1, out @ map mk ns1)"
    and s1: "visit_spec files {d} seen ns1"
    using body [of d seen out] by auto
  have "R - (seen \<union> set ns1) \<subseteq> R - seen" by auto
  then have "card (R - (seen \<union> set ns1)) \<le> card (R - seen)"
    using \<open>finite R\<close> by (intro card_mono) auto
  with Cons.prems have le: "card (R - (seen \<union> set ns1)) \<le> n" by simp
  from Cons.prems have "set ds \<subseteq> R" by simp
  from Cons.IH [OF this le, of "out @ map mk ns1"] obtain ns2 where
    b2: "for_each body ds (seen \<union> set ns1, out @ map mk ns1) =
           Some (seen \<union> set ns1 \<union> set ns2, (out @ map mk ns1) @ map mk ns2)"
    and s2: "visit_spec files (set ds) (seen \<union> set ns1) ns2"
    by auto
  have "for_each body (d # ds) (seen, out) = Some (seen \<union> set (ns1 @ ns2), out @ map mk (ns1 @ ns2))"
    using b1 b2 by (simp add: Un_assoc)
  moreover have "visit_spec files (set (d # ds)) seen (ns1 @ ns2)"
    using visit_spec_append [OF s1 s2] by simp
  ultimately show ?case by blast
qed

lemma get_transitive_deps_total:
  assumes "finite R" and closed: "\<forall>n \<in> R. set (dependency (files n)) \<subseteq> R"
  shows "f \<in> R \<Longrightarrow> card (R - seen) \<le> n \<Longrightarrow>
     \<exists>ns. get_transitive_deps files f jn sci (seen, out) =
            Some (seen \<union> set ns, out @ map (descriptor_proto files jn sci) ns) \<and>
          visit_spec files {f} seen ns"
proof (induction n arbitrary: f seen out)
  case 0
  then have "R - seen = {}" using \<open>finite R\<close> by simp
  with 0 have "f \<in> seen" by auto
  then show ?case
    by (intro exI [of _ "[]"]) (simp add: get_transitive_deps_unfold visit_spec_seen)
next
  case (Suc n)
  show ?case
  proof (cases "f \<in> seen")
    case True
    then show ?thesis
      by (intro exI [of _ "[]"]) (simp add: get_transitive_deps_unfold visit_spec_seen)
  next
    case False
    have "R - insert f seen \<subset> R - seen" using False Suc.prems by auto
    then have "card (R - insert f seen) < card (R - seen)"
      using \<open>finite R\<close> by (intro psubset_card_mono) auto
    with Suc.prems have le: "card (R - insert f seen) \<le> n" by simp
    have ds: "set (dependency (files f)) \<subseteq> R" using closed Suc.prems by auto
    have "\<exists>ns. for_each (\<lambda>d. get_transitive_deps files d jn sci) (dependency (files f))
              (insert f seen, out) =
            Some (insert f seen \<union> set ns, out @ map (descriptor_proto files jn sci) ns) \<and>
          visit_spec files (set (dependency (files f))) (insert f seen) ns"
      by (rule for_each_total [where R = R and n = n, OF Suc.IH ds le \<open>finite R\<close>])
    then obtain ns where
      l: "for_each (\<lambda>d. get_transitive_deps files d jn sci) (dependency (files f))
              (insert f seen, out) =
            Some (insert f seen \<union> set ns, out @ map (descriptor_proto files jn sci) ns)"
      and s: "visit_spec files (set (dependency (files f))) (insert f seen) ns"
      by blast
    have "get_transitive_deps files f jn sci (seen, out) =
            Some (seen \<union> set (ns @ [f]), out @ map (descriptor_proto files jn sci) (ns @ [f]))"
      using False l by (simp add: get_transitive_deps_unfold)
    moreover have "visit_spec files {f} seen (ns @ [f])"
      by (rule visit_spec_finish [OF s False])
    ultimately show ?thesis by blast
  qed
qed

lemma reachable_closed: "\<forall>n \<in> reachable files A. set (dependency (files n)) \<subseteq> reachable files A"
  using reachable_dep by blast

lemma build_file_set_total:
  assumes fin: "finite (reachable files (set parsed_files))"
  shows "\<exists>ns. build_file_set files parsed_files = Some (map (descriptor_proto files True True) ns) \<and>
           visit_spec files (set parsed_files) {} ns"
proof -
  let ?R = "reachable files (set parsed_files)"
  have "\<exists>ns. for_each (\<lambda>parsed. get_transitive_deps files parsed True True) parsed_files ({}, []) =
            Some ({} \<union> set ns, [] @ map (descriptor_proto files True True) ns) \<and>
          visit_spec files (set parsed_files) {} ns"
  proof (rule for_each_total [where R = ?R and n = "card ?R"])
    show "set parsed_files \<subseteq> ?R" by (rule reachable_refl)
    show "card (?R - {}) \<le> card ?R" by simp
    show "finite ?R" by (rule fin)
    show "\<exists>ns. get_transitive_deps files d True True (seen, out) =
            Some (seen \<union> set ns, out @ map (descriptor_proto files True True) ns) \<and>
          visit_spec files {d} seen ns"
      if "d \<in> ?R" "card (?R - seen) \<le> card ?R" for d seen out
      using get_transitive_deps_total [OF fin reachable_closed that] .
  qed
  then show ?thesis by (auto simp: build_file_set_def)
qed

lemma visit_spec_closure:
  assumes "visit_spec files roots {} ns"
  shows "set ns = reachable files roots"
proof
  show "set ns \<subseteq> reachable files roots" using assms by (simp add: visit_spec_def)
  have "roots \<subseteq> set ns" "\<forall>n \<in> set ns. set (dependency (files n)) \<subseteq> set ns"
    using assms by (auto simp: visit_spec_def)
  then show "reachable files roots \<subseteq> set ns" by (rule reachable_subset_closed)
qed

lemma visit_spec_topological:
  assumes v: "visit_spec files roots {} ns" and ac: "acyclic (dep_edges files)"
    and i: "i < length ns" and d: "d \<in> set (dependency (files (ns ! i)))"
  shows "\<exists>j<i. ns ! j = d"
proof -
  have "dep_ordered files {} ns" using v by (simp add: visit_spec_def)
  from dep_ordered_nth [OF this i d]
  consider "d \<in> set (take i ns)" | "ns ! i \<in> reachable files {d}" by auto
  then show ?thesis
  proof cases
    case 1
    then obtain j where "j < length (take i ns)" "take i ns ! j = d"
      by (auto simp: in_set_conv_nth)
    then show ?thesis using i by auto
  next
    case 2
    then have "(d, ns ! i) \<in> (dep_edges files)\<^sup>*" by (simp add: reachable_def)
    moreover have "(ns ! i, d) \<in> dep_edges files" using d by (simp add: dep_edges_def)
    ultimately have "(d, d) \<in> (dep_edges files)\<^sup>+" by (rule rtrancl_into_trancl1)
    with ac show ?thesis by (simp add: acyclic_def)
  qed
qed

text \<open>
  Claim C7. \<open>get_transitive_deps\<close> returns for every descriptor from which finitely many
  descriptors can be reached, whatever the state it is called in and also when the
  dependencies form a cycle; called on a descriptor that is already in \<open>already_seen\<close>
  it returns at once and leaves the state as it is.
\<close>

theorem get_transitive_deps_terminates:
  assumes "finite (reachable files {f})"
  shows "(\<exists>r. get_transitive_deps files f jn sci st = Some r) \<and>
         (f \<in> fst st \<longrightarrow> get_transitive_deps files f jn sci st = Some st)"
proof -
  have "f \<in> reachable files {f}" using reachable_refl [of "{f}" files] by simp
  from get_transitive_deps_total [where seen = "fst st" and out = "snd st" and jn = jn and sci = sci,
      OF assms reachable_closed this order_refl]
  have "\<exists>r. get_transitive_deps files f jn sci st = Some r" by auto
  moreover have "f \<in> fst st \<longrightarrow> get_transitive_deps files f jn sci st = Some st"
    by (subst get_transitive_deps.simps) simp
  ultimately show ?thesis by blast
qed

lemma finite_reachable_cyclic: "finite (reachable cyclic_files {0})"
proof -
  have "reachable cyclic_files {0} \<subseteq> {0, 1}"
    by (rule reachable_subset_closed) (auto simp: cyclic_files_def)
  then show ?thesis by (rule finite_subset) simp
qed

theorem get_transitive_deps_terminates_witness:
  "finite (reachable cyclic_files {0}) \<and>
   (\<exists>r. get_transitive_deps cyclic_files 0 True True ({}, []) = Some r) \<and>
   get_transitive_deps cyclic_files 0 True True ({0}, []) = Some ({0}, [])"
  using get_transitive_deps_terminates [OF finite_reachable_cyclic, of True True "({}, [])"]
    get_transitive_deps_terminates [OF finite_reachable_cyclic, of True True "({0}, [])"]
    finite_reachable_cyclic
  by simp

text \<open>
  Claim C3. The \<open>file_set\<close> that \<open>write_descriptor_set\<close> builds holds one element for each
  descriptor of a list \<open>ns\<close> without repetitions whose members are exactly the descriptors
  reachable from the roots along dependency edges, however many roots or paths lead to
  a descriptor.
\<close>

theorem build_file_set_closure:
  assumes "finite (reachable files (set parsed_files))"
  shows "\<exists>ns. build_file_set files parsed_files =
                 Some (map (descriptor_proto files True True) ns) \<and>
              distinct ns \<and> set ns = reachable files (set parsed_files)"
proof -
  from build_file_set_total [OF assms] obtain ns where
    b: "build_file_set files parsed_files = Some (map (descriptor_proto files True True) ns)"
    and v: "visit_spec files (set parsed_files) {} ns" by blast
  have "distinct ns" using v by (simp add: visit_spec_def)
  moreover have "set ns = reachable files (set parsed_files)" by (rule visit_spec_closure [OF v])
  ultimately show ?thesis using b by blast
qed

text \<open>
  Claim C2. When the dependency edges have no cycle, every dependency of the descriptor
  at index \<open>i\<close> of the output sequence stands at an index \<open>j < i\<close>.
\<close>

theorem build_file_set_topological:
  assumes "acyclic (dep_edges files)" and "finite (reachable files (set parsed_files))"
  shows "\<exists>ns. build_file_set files parsed_files =
                 Some (map (descriptor_proto files True True) ns) \<and>
              distinct ns \<and> set ns = reachable files (set parsed_files) \<and>
              (\<forall>i<length ns. \<forall>d \<in> set (dependency (files (ns ! i))). \<exists>j<i. ns ! j = d)"
proof -
  from build_file_set_total [OF assms(2)] obtain ns where
    b: "build_file_set files parsed_files = Some (map (descriptor_proto files True True) ns)"
    and v: "visit_spec files (set parsed_files) {} ns" by blast
  have "distinct ns" using v by (simp add: visit_spec_def)
  moreover have "set ns = reachable files (set parsed_files)" by (rule visit_spec_closure [OF v])
  moreover have "\<forall>i<length ns. \<forall>d \<in> set (dependency (files (ns ! i))). \<exists>j<i. ns ! j = d"
    using visit_spec_topological [OF v assms(1)] by blast
  ultimately show ?thesis using b by blast
qed

lemma finite_reachable_diamond: "finite (reachable diamond_files (set [0, 1, 0]))"
proof -
  have "reachable diamond_files (set [0, 1, 0]) \<subseteq> {0, 1, 2, 3}"
    by (rule reachable_subset_closed) (auto simp: diamond_files_def)
  then show ?thesis by (rule finite_subset) simp
qed

lemma acyclic_diamond: "acyclic (dep_edges diamond_files)"
proof (rule acyclicI_order [where f = "\<lambda>p. 4 - p"])
  fix a b :: nat
  assume "(a, b) \<in> dep_edges diamond_files"
  then show "4 - b < 4 - a"
    by (auto simp: dep_edges_def diamond_files_def split: if_splits)
qed

lemma build_file_set_diamond:
  "map_option (map proto_name) (build_file_set diamond_files [0, 1, 0]) =
     Some [''base.proto'', ''left.proto'', ''right.proto'', ''app.proto'']"
  by code_simp

theorem build_file_set_closure_witness:
  "finite (reachable diamond_files (set [0, 1, 0])) \<and>
   (\<exists>ns. build_file_set diamond_files [0, 1, 0] =
            Some (map (descriptor_proto diamond_files True True) ns) \<and>
          distinct ns \<and> set ns = reachable diamond_files (set [0, 1, 0])) \<and>
   map_option (map proto_name) (build_file_set diamond_files [0, 1, 0]) =
     Some [''base.proto'', ''left.proto'', ''right.proto'', ''app.proto'']"
  using build_file_set_closure [OF finite_reachable_diamond] finite_reachable_diamond
    build_file_set_diamond
  by blast

theorem build_file_set_topological_witness:
  "acyclic (dep_edges diamond_files) \<and> finite (reachable diamond_files (set [0, 1, 0])) \<and>
   (\<exists>ns. build_file_set diamond_files [0, 1, 0] =
            Some (map (descriptor_proto diamond_files True True) ns) \<and>
          distinct ns \<and> set ns = reachable diamond_files (set [0, 1, 0]) \<and>
          (\<forall>i<length ns. \<forall>d \<in> set (dependency (diamond_files (ns ! i))). \<exists>j<i. ns ! j = d))"
  using build_file_set_topological [OF acyclic_diamond finite_reachable_diamond]
    acyclic_diamond finite_reachable_diamond
  by blast

lemma descriptor_proto_renamed:
  assumes "renamed_files \<pi> files files'"
  shows "descriptor_proto files' jn sci (\<pi> f) = descriptor_proto files jn sci f"
proof -
  have n: "name (files' (\<pi> f)) = name (files f)"
    and d: "dependency (files' (\<pi> f)) = map \<pi> (dependency (files f))"
    using assms by (simp_all add: renamed_files_def)
  have "map (\<lambda>d. name (files' d)) (map \<pi> (dependency (files f))) =
        map (\<lambda>d. name (files d)) (dependency (files f))"
    using assms by (simp add: renamed_files_def)
  then show ?thesis
    by (simp add: descriptor_proto_def CopyTo_def CopyJsonNameTo_def CopySourceCodeInfoTo_def
        Let_def n d)
qed

lemma for_each_renamed:
  assumes body: "\<And>d seen out. d \<in> R \<Longrightarrow> card (R - seen) \<le> n \<Longrightarrow>
      body' (\<pi> d) (\<pi> ` seen, out) = map_option (\<lambda>st. (\<pi> ` fst st, snd st)) (body d (seen, out))"
    and total: "\<And>d seen out. d \<in> R \<Longrightarrow> card (R - seen) \<le> n \<Longrightarrow>
      \<exists>ns out'. body d (seen, out) = Some (seen \<union> set ns, out')"
    and "finite R"
  shows "set ds \<subseteq> R \<Longrightarrow> card (R - seen) \<le> n \<Longrightarrow>
     for_each body' (map \<pi> ds) (\<pi> ` seen, out) =
       map_option (\<lambda>st. (\<pi> ` fst st, snd st)) (for_each body ds (seen, out))"
proof (induction ds arbitrary: seen out)
  case Nil
  show ?case by simp
next
  case (Cons d ds)
  from Cons.prems obtain ns out1 where
    b1: "body d (seen, out) = Some (seen \<union> set ns, out1)"
    using total [of d seen out] by auto
  have b2: "body' (\<pi> d) (\<pi> ` seen, out) = Some (\<pi> ` (seen \<union> set ns), out1)"
    using body [of d seen out] Cons.prems b1 by simp
  have "R - (seen \<union> set ns) \<subseteq> R - seen" by auto
  then have "card (R - (seen \<union> set ns)) \<le> card (R - seen)"
    using \<open>finite R\<close> by (intro card_mono) auto
  with Cons.prems have le: "card (R - (seen \<union> set ns)) \<le> n" by simp
  from Cons.prems have "set ds \<subseteq> R" by simp
  from Cons.IH [OF this le, of out1] show ?case
    using b1 b2 by simp
qed

lemma get_transitive_deps_renamed:
  assumes "inj \<pi>" and ren: "renamed_files \<pi> files files'"
    and fin: "finite R" and closed: "\<forall>n \<in> R. set (dependency (files n)) \<subseteq> R"
  shows "f \<in> R \<Longrightarrow> card (R - seen) \<le> n \<Longrightarrow>
     get_transitive_deps files' (\<pi> f) jn sci (\<pi> ` seen, out) =
       map_option (\<lambda>st. (\<pi> ` fst st, snd st)) (get_transitive_deps files f jn sci (seen, out))"
proof (induction n arbitrary: f seen out)
  case 0
  then have "R - seen = {}" using fin by simp
  with 0 have "f \<in> seen" by auto
  then show ?case by (simp add: get_transitive_deps_unfold)
next
  case (Suc n)
  show ?case
  proof (cases "f \<in> seen")
    case True
    then show ?thesis by (simp add: get_transitive_deps_unfold)
  next
    case False
    then have nf: "\<pi> f \<notin> \<pi> ` seen" using \<open>inj \<pi>\<close> by (auto dest: injD)
    have "R - insert f seen \<subset> R - seen" using False Suc.prems by auto
    then have "card (R - insert f seen) < card (R - seen)"
      using fin by (intro psubset_card_mono) auto
    with Suc.prems have le: "card (R - insert f seen) \<le> n" by simp
    have ds: "set (dependency (files f)) \<subseteq> R" using closed Suc.prems by auto
    have deps: "dependency (files' (\<pi> f)) = map \<pi> (dependency (files f))"
      using ren by (simp add: renamed_files_def)
    have tot: "\<exists>ns out'. get_transitive_deps files d jn sci (seen, out) = Some (seen \<union> set ns, out')"
      if "d \<in> R" "card (R - seen) \<le> n" for d seen out
      using get_transitive_deps_total [OF fin closed that, of jn sci out] by blast
    have loop: "for_each (\<lambda>d. get_transitive_deps files' d jn sci) (map \<pi> (dependency (files f)))
          (\<pi> ` insert f seen, out) =
        map_option (\<lambda>st. (\<pi> ` fst st, snd st))
          (for_each (\<lambda>d. get_transitive_deps files d jn sci) (dependency (files f))
             (insert f seen, out))"
      by (rule for_each_renamed [where R = R and n = n and \<pi> = \<pi>
            and body = "\<lambda>d. get_transitive_deps files d jn sci"
            and body' = "\<lambda>d. get_transitive_deps files' d jn sci",
            OF Suc.IH tot fin ds le])
    show ?thesis
      using False nf
      by (simp add: get_transitive_deps_unfold [of files' "\<pi> f"]
          get_transitive_deps_unfold [of files f] deps loop [simplified]
          descriptor_proto_renamed [OF ren] Option.bind_map_option
          map_option_bind o_def split: Option.bind_splits)
  qed
qed

section \<open>\<open>BufferOutput\<close>\<close>

lemma signed_take_bit_31:
  assumes "0 \<le> k" and "k < 2147483648"
  shows "signed_take_bit 31 (k::int) = k"
proof (rule signed_take_bit_int_eq_self)
  show "- (2 ^ 31) \<le> k" using assms(1) by simp
  show "k < 2 ^ 31" using assms(2) by simp
qed

lemma sint_ucast_small:
  assumes "unat (x::64 word) < 2147483648"
  shows "sint (ucast x :: 32 word) = int (unat x)"
proof -
  have u: "uint x = int (unat x)" by (rule uint_nat)
  have b: "int (unat x) < 2147483648" using assms by linarith
  have "sint (ucast x :: 32 word) = sint (word_of_int (uint x) :: 32 word)"
    by (simp only: ucast_eq)
  also have "\<dots> = signed_take_bit 31 (uint x)"
    using sint_sbintrunc' [of "uint x", where 'a = 32] by simp
  also have "\<dots> = uint x"
    unfolding u using b by (intro signed_take_bit_31) linarith+
  finally show ?thesis by (simp only: u)
qed

lemma scast_of_nat_small:
  assumes "n < 2147483648"
  shows "(scast (word_of_nat n :: 32 word) :: 64 word) = word_of_nat n"
proof -
  have b: "int n < 2147483648" using assms by linarith
  have "sint (word_of_nat n :: 32 word) = signed_take_bit 31 (int n)"
    using sint_sbintrunc' [of "int n", where 'a = 32] by simp
  also have "\<dots> = int n"
    using b by (intro signed_take_bit_31) linarith+
  finally have "sint (word_of_nat n :: 32 word) = int n" .
  then show ?thesis
    by (simp only: scast_eq) simp
qed


lemma Next_next_size:
  "Next impl this =
     (let n = next_size (len this) (buffer_capacity impl (buffer_context impl));
          r = resize_buffer impl (buffer_context impl) n
      in (True, fst r + len this, ucast (n - len this),
          this\<lparr>buffer_base := fst r, len := n\<rparr>, impl\<lparr>buffer_context := snd r\<rparr>))"
  by (simp add: Next_def next_size_def Let_def)

lemma next_size_unat:
  assumes "unat old < 9223372036854775808"
  shows "unat (next_size old cap) =
     max (min (if unat old < unat cap then unat cap else 2 * unat old) (unat old + 2147483647)) 1024"
proof -
  have a: "unat (old * 2) = 2 * unat old"
    using assms by (simp add: unat_word_ariths)
  have b: "unat (old + 0x7FFFFFFF) = unat old + 2147483647"
    using assms by (simp add: unat_word_ariths)
  show ?thesis
    unfolding next_size_def
    by (simp add: a b word_less_nat_alt word_le_nat_alt max_def min_def)
qed

lemma next_size_grows:
  assumes "unat old < 9223372036854775808"
  shows "unat old < unat (next_size old cap)"
    and "unat (next_size old cap) - unat old \<le> 2147483647"
    and "1024 \<le> unat (next_size old cap)"
  using assms by (auto simp: next_size_unat)

lemma next_size_spec:
  assumes "unat old < 9223372036854775808" and "old = 0 \<or> 1024 \<le> old"
  shows "unat (next_size old cap) = spec_target (unat old) (unat cap)"
proof -
  have "unat old = 0 \<or> 1024 \<le> unat old"
    using assms(2) by (auto simp: word_le_nat_alt)
  then show ?thesis
    unfolding next_size_unat [OF assms(1)] spec_target_def Let_def
    by (auto simp: max_def min_def)
qed

lemma region_size:
  assumes "unat old < 9223372036854775808"
  shows "sint (ucast (next_size old cap - old) :: c_int) = int (unat (next_size old cap) - unat old)"
proof -
  let ?n = "next_size old cap"
  have lt: "unat old < unat ?n" and le: "unat ?n - unat old \<le> 2147483647"
    using next_size_grows [OF assms] by auto
  have "old \<le> ?n" using lt by (simp add: word_le_nat_alt)
  then have d: "unat (?n - old) = unat ?n - unat old" by (rule unat_sub)
  have "unat (?n - old) < 2147483648" using le d by linarith
  from sint_ucast_small [OF this] d show ?thesis by simp
qed

text \<open>
  The states of a \<open>BufferOutput\<close>: the constructor leaves \<open>len = 0\<close>, \<open>Next\<close> leaves
  \<open>len \<ge> 1024\<close> whatever it started from, and \<open>BackUp\<close> does not write \<open>len\<close>. So in every
  state the object reaches, \<open>len\<close> is 0 or at least 1024.
\<close>

lemma BufferOutput_new_len: "len BufferOutput_new = 0"
  by (simp add: BufferOutput_new_def)

lemma Next_len_floor: "1024 \<le> len (fst (snd (snd (snd (Next impl this)))))"
  by (simp add: Next_def Let_def)

lemma BackUp_len: "len (fst (BackUp impl count this)) = len this"
  by (simp add: BackUp_def Let_def)

text \<open>
  Claim C4. On a request for the next write region, in a state the object reaches
  (\<open>len\<close> is 0 or at least 1024) and with a committed length below \<open>2^63\<close> (no 64-bit
  sum or product of the computation wraps around), \<open>Next\<close> returns true; the size it passes
  to the caller's resize operation, which becomes the new \<open>len\<close>, is the target of the
  specification: the granted capacity when the committed length is below it, otherwise
  twice the committed length, at most \<open>INT_MAX\<close> more than the committed length, and at
  least 1024 for the first allocation; \<open>*data\<close> is the returned base address plus the
  previous length; \<open>*size\<close>, read as a signed 32-bit integer, is the new length minus the
  previous one, which lies between 1 and \<open>INT_MAX\<close>.
\<close>

theorem Next_target:
  assumes "unat (len this) < 9223372036854775808" and "len this = 0 \<or> 1024 \<le> len this"
  shows "case Next impl this of
           (ok, data, room, this', impl') \<Rightarrow>
             ok \<and>
             unat (len this') =
               spec_target (unat (len this)) (unat (buffer_capacity impl (buffer_context impl))) \<and>
             (buffer_base this', buffer_context impl') =
               resize_buffer impl (buffer_context impl) (len this') \<and>
             data = buffer_base this' + len this \<and>
             sint room = int (unat (len this')) - int (unat (len this)) \<and>
             0 < sint room \<and> sint room \<le> 2147483647"
proof -
  let ?cap = "buffer_capacity impl (buffer_context impl)"
  define n where "n = next_size (len this) ?cap"
  define r where "r = resize_buffer impl (buffer_context impl) n"
  have N: "Next impl this =
      (True, fst r + len this, ucast (n - len this),
       this\<lparr>buffer_base := fst r, len := n\<rparr>, impl\<lparr>buffer_context := snd r\<rparr>)"
    by (simp add: Next_next_size Let_def n_def r_def)
  have lt: "unat (len this) < unat n" and le: "unat n - unat (len this) \<le> 2147483647"
    unfolding n_def by (rule next_size_grows [OF assms(1)])+
  have s: "unat n = spec_target (unat (len this)) (unat ?cap)"
    unfolding n_def by (rule next_size_spec [OF assms])
  have "sint (ucast (n - len this) :: c_int) = int (unat n - unat (len this))"
    unfolding n_def by (rule region_size [OF assms(1)])
  also have "\<dots> = int (unat n) - int (unat (len this))"
    using lt by (simp only: of_nat_diff less_imp_le)
  finally have z: "sint (ucast (n - len this) :: c_int) = int (unat n) - int (unat (len this))" .
  have p: "0 < sint (ucast (n - len this) :: c_int)"
    and q: "sint (ucast (n - len this) :: c_int) \<le> 2147483647"
    unfolding z using lt le by linarith+
  have b: "(fst r, snd r) = resize_buffer impl (buffer_context impl) n"
    by (simp add: r_def)
  have l: "len (this\<lparr>buffer_base := fst r, len := n\<rparr>) = n"
    and c: "buffer_base (this\<lparr>buffer_base := fst r, len := n\<rparr>) = fst r"
    and x: "buffer_context (impl\<lparr>buffer_context := snd r\<rparr>) = snd r"
    by simp_all
  show ?thesis
    unfolding N prod.case l c x
    using s z p q b by (intro conjI) (simp_all only: simp_thms)
qed

theorem Next_target_witness:
  "unat (len BufferOutput_new) < 9223372036854775808 \<and>
   (len BufferOutput_new = 0 \<or> 1024 \<le> len BufferOutput_new) \<and>
   Next recording_buffer BufferOutput_new =
     (True, 0x1000, 1024, \<lparr>buffer_base = 0x1000, len = 1024\<rparr>,
      recording_buffer\<lparr>buffer_context := [1024]\<rparr>) \<and>
   spec_target 0 0 = 1024 \<and> spec_target 1024 0 = 2048 \<and> spec_target 1024 4096 = 4096 \<and>
   spec_target 4096 1099511627776 = 4096 + 2147483647"
  using Next_target [of BufferOutput_new recording_buffer]
  by (simp add: BufferOutput_new_def recording_buffer_def Next_def spec_target_def)

text \<open>
  Claim C5, at the input where the code departs from it. A fresh \<open>BufferOutput\<close> over a
  caller that records the sizes it is asked for: after \<open>Next\<close> (\<open>len = 1024\<close>) and
  \<open>BackUp(24)\<close> the caller has been asked for 1024 and then for 1000 bytes, and \<open>ByteCount\<close>
  still returns 1024.
\<close>

theorem BackUp_leaves_len:
  "(case Next recording_buffer BufferOutput_new of
      (ok, data, room, this, impl) \<Rightarrow>
        (case BackUp impl 24 this of
           (this', impl') \<Rightarrow> buffer_context impl' = [1024, 1000] \<and> ByteCount this' = 1024))"
  by (simp add: Next_def BackUp_def recording_buffer_def BufferOutput_new_def ByteCount_def Let_def)

text \<open>
  Claim C6, as amended. When the caller's resize operation cannot satisfy a request and
  returns the null address, the request for a write region does not fail: \<open>Next\<close> returns
  true for every caller and every state, and \<open>*data\<close> is the address the resize operation
  returned, null or not, plus the previous length.
\<close>

theorem Next_never_fails:
  "fst (Next impl this) \<and>
   fst (snd (Next impl this)) =
     fst (resize_buffer impl (buffer_context impl) (len (fst (snd (snd (snd (Next impl this))))))) +
     len this"
  by (simp add: Next_def Let_def)

text \<open>
  Claim C6 as stated fails. For a caller whose resize operation returns the null address,
  \<open>Next\<close> on a fresh \<open>BufferOutput\<close> asks for 1024 bytes, is given the null address, and
  returns true with \<open>*data\<close> null and \<open>*size = 1024\<close>.
\<close>

theorem Next_null_base_counterexample:
  "fst (resize_buffer failing_buffer (buffer_context failing_buffer) 1024) = 0 \<and>
   Next failing_buffer BufferOutput_new =
     (True, 0, 1024, \<lparr>buffer_base = 0, len = 1024\<rparr>,
      failing_buffer\<lparr>buffer_context := ([1024], [])\<rparr>)"
  by (simp add: failing_buffer_def BufferOutput_new_def Next_def Let_def)

lemma vec_buffer_update [simp]:
  "(vec_buffer place slack v)\<lparr>buffer_context := v'\<rparr> = vec_buffer place slack v'"
  by (simp add: vec_buffer_def)

lemma vec_buffer_sel [simp]:
  "resize_buffer (vec_buffer place slack v) = vec_resize place"
  "buffer_capacity (vec_buffer place slack v) = vec_capacity slack"
  "buffer_context (vec_buffer place slack v) = v"
  by (simp_all add: vec_buffer_def)

lemma vec_resize_sel [simp]:
  "vec_bytes (snd (vec_resize place v n)) = take (unat n) (vec_bytes v @ replicate (unat n) 0)"
  "vec_addr (snd (vec_resize place v n)) = fst (vec_resize place v n)"
  "vec_faulted (snd (vec_resize place v n)) = vec_faulted v"
  by (simp_all add: vec_resize_def)

lemma length_vec_resize [simp]: "length (vec_bytes (snd (vec_resize place v n))) = unat n"
  by simp

lemma vec_store_in_range:
  assumes "vec_addr v = a" and "unat off + length bs \<le> length (vec_bytes v)"
  shows "vec_store v (a + off) bs =
     v\<lparr>vec_bytes := take (unat off) (vec_bytes v) @ bs @ drop (unat off + length bs) (vec_bytes v)\<rparr>"
  using assms by (simp add: vec_store_def Let_def)

lemma BackUp_unat:
  assumes "k < 2147483648" and "k \<le> unat (n :: size_t)"
  shows "unat (n - scast (word_of_nat k :: c_int)) = unat n - k"
proof -
  have s: "(scast (word_of_nat k :: c_int) :: size_t) = word_of_nat k"
    by (rule scast_of_nat_small [OF assms(1)])
  have u: "unat (word_of_nat k :: size_t) = k"
    by (rule le_unat_uoi [OF assms(2)])
  then have "(word_of_nat k :: size_t) \<le> n" using assms(2) by (simp add: word_le_nat_alt)
  then have "unat (n - word_of_nat k) = unat n - unat (word_of_nat k :: size_t)"
    by (rule unat_sub)
  with s u show ?thesis by simp
qed

lemma write_through_vec:
  assumes "length done + length bytes < 9223372036854775808"
    and "unat (len this) = length done"
    and "take (length done) (vec_bytes v) = done"
    and "\<not> vec_faulted v"
  shows "\<exists>this' v'. write_through vec_store bytes (this, vec_buffer place slack v) =
            Some (True, this', vec_buffer place slack v') \<and>
          vec_bytes v' = done @ bytes \<and> \<not> vec_faulted v'"
  using assms
proof (induction bytes arbitrary: "done" this v rule: length_induct)
  case (1 bytes)
  let ?old = "len this"
  let ?n = "next_size ?old (vec_capacity slack v)"
  let ?r = "vec_resize place v ?n"
  let ?v1 = "snd ?r"
  let ?m = "unat ?n - unat ?old"
  have small: "unat ?old < 9223372036854775808" using "1.prems" by simp
  note g = next_size_grows [OF small, of "vec_capacity slack v"]
  have room: "nat (sint (ucast (?n - ?old) :: c_int)) = ?m"
    using region_size [OF small, of "vec_capacity slack v"] by simp
  have len1: "length (vec_bytes ?v1) = unat ?n" by simp
  have "length (take (length done) (vec_bytes v)) = length done"
    using "1.prems"(3) by simp
  then have dl: "length done \<le> length (vec_bytes v)" by simp
  have pre: "take (length done) (vec_bytes ?v1) = done"
    using "1.prems"(2,3) g(1) dl by simp
  have a1: "vec_addr ?v1 = fst ?r" by simp
  have total: "length done + ?m = unat ?n" using "1.prems"(2) g(1) by simp
  show ?case
  proof (cases "length bytes \<le> ?m")
    case True
    have rng: "unat ?old + length bytes \<le> length (vec_bytes ?v1)"
      using True "1.prems"(2) total by simp
    let ?v2 = "vec_store ?v1 (fst ?r + ?old) bytes"
    have v2: "?v2 = ?v1\<lparr>vec_bytes := take (unat ?old) (vec_bytes ?v1) @ bytes @
        drop (unat ?old + length bytes) (vec_bytes ?v1)\<rparr>"
      by (rule vec_store_in_range [OF a1 rng])
    have b2: "vec_bytes ?v2 = done @ bytes @ drop (length done + length bytes) (vec_bytes ?v1)"
      unfolding v2 using pre "1.prems"(2) by simp
    have f2: "\<not> vec_faulted ?v2" unfolding v2 using "1.prems"(4) by simp
    show ?thesis
    proof (cases "length bytes < ?m")
      case less: True
      let ?k = "?m - length bytes"
      have k: "?k < 2147483648" "?k \<le> unat ?n" using g(2) by auto
      let ?v3 = "snd (vec_resize place ?v2 (?n - scast (word_of_nat ?k :: c_int)))"
      have u: "unat (?n - scast (word_of_nat ?k :: c_int)) = length done + length bytes"
        using BackUp_unat [OF k] total less by simp
      have "write_through vec_store bytes (this, vec_buffer place slack v) =
          Some (True, BackUp (vec_buffer place slack ?v2) (word_of_nat ?k)
                  (this\<lparr>buffer_base := fst ?r, len := ?n\<rparr>))"
        using True less room
        by (subst write_through.simps) (simp add: Next_next_size Let_def)
      moreover have "vec_bytes ?v3 = done @ bytes"
        using u b2 by simp
      moreover have "\<not> vec_faulted ?v3" using f2 by simp
      ultimately show ?thesis by (auto simp: BackUp_def Let_def)
    next
      case False
      with True have eq: "length bytes = ?m" by simp
      have "write_through vec_store bytes (this, vec_buffer place slack v) =
          Some (True, this\<lparr>buffer_base := fst ?r, len := ?n\<rparr>, vec_buffer place slack ?v2)"
        using True False room
        by (subst write_through.simps) (simp add: Next_next_size Let_def)
      moreover have "vec_bytes ?v2 = done @ bytes"
        using b2 eq total len1 by simp
      ultimately show ?thesis using f2 by blast
    qed
  next
    case False
    let ?chunk = "take ?m bytes"
    have cl: "length ?chunk = ?m" using False by simp
    have rng: "unat ?old + length ?chunk \<le> length (vec_bytes ?v1)"
      using cl "1.prems"(2) total by simp
    let ?v2 = "vec_store ?v1 (fst ?r + ?old) ?chunk"
    have v2: "?v2 = ?v1\<lparr>vec_bytes := take (unat ?old) (vec_bytes ?v1) @ ?chunk @
        drop (unat ?old + length ?chunk) (vec_bytes ?v1)\<rparr>"
      by (rule vec_store_in_range [OF a1 rng])
    have b2: "vec_bytes ?v2 = done @ ?chunk"
      unfolding v2 using pre "1.prems"(2) cl total len1 by simp
    have f2: "\<not> vec_faulted ?v2" unfolding v2 using "1.prems"(4) by simp
    have step: "write_through vec_store bytes (this, vec_buffer place slack v) =
        write_through vec_store (drop ?m bytes)
          (this\<lparr>buffer_base := fst ?r, len := ?n\<rparr>, vec_buffer place slack ?v2)"
      using False room
      by (subst write_through.simps) (simp add: Next_next_size Let_def)
    have shorter: "length (drop ?m bytes) < length bytes" using False g(1) by simp
    have "\<exists>this' v'. write_through vec_store (drop ?m bytes)
            (this\<lparr>buffer_base := fst ?r, len := ?n\<rparr>, vec_buffer place slack ?v2) =
              Some (True, this', vec_buffer place slack v') \<and>
            vec_bytes v' = (done @ ?chunk) @ drop ?m bytes \<and> \<not> vec_faulted v'"
    proof (rule "1.IH" [rule_format, OF shorter])
      show "length (done @ ?chunk) + length (drop ?m bytes) < 9223372036854775808"
        using "1.prems"(1) False by simp
      show "unat (len (this\<lparr>buffer_base := fst ?r, len := ?n\<rparr>)) = length (done @ ?chunk)"
        using cl total by simp
      show "take (length (done @ ?chunk)) (vec_bytes ?v2) = done @ ?chunk"
        unfolding b2 using False by (simp add: min_def)
      show "\<not> vec_faulted ?v2" by (rule f2)
    qed
    then show ?thesis unfolding step by simp
  qed
qed

section \<open>Diagnostics and the entry point\<close>

text \<open>
  The two flags are never reset: each of the six reporting entry points keeps a flag that
  is set.
\<close>

lemma ErrorPrinter_flags_kept:
  assumes "op \<in> {AddError filename line column message, AddWarning filename line column message,
                  AddError_io line column message, AddWarning_io line column message,
                  AddError_pool filename element_name message,
                  AddWarning_pool filename element_name message}"
  shows "(FoundErrors (fst s) \<longrightarrow> FoundErrors (fst (op s))) \<and>
         (FoundWarnings (fst s) \<longrightarrow> FoundWarnings (fst (op s)))"
  using assms
  by (auto simp: FoundErrors_def FoundWarnings_def AddError_def AddWarning_def AddError_io_def
      AddWarning_io_def AddError_pool_def AddWarning_pool_def)

text \<open>
  Claim C10, at the input where the code departs from it. On a fresh \<open>ErrorPrinter\<close>, a
  warning reported with line and column only is printed to \<open>std::clog\<close> and leaves
  \<open>FoundWarnings\<close> false, and so does a warning reported with file and element name; a
  warning reported with file, line and column sets it.
\<close>

theorem AddWarning_io_leaves_flag:
  "\<not> FoundWarnings (fst (AddWarning_io 3 4 ''w'' (ErrorPrinter_new, no_output))) \<and>
   clog (snd (AddWarning_io 3 4 ''w'' (ErrorPrinter_new, no_output))) = [''input:4:5: warning: w''] \<and>
   \<not> FoundWarnings (fst (AddWarning_pool ''a.proto'' ''Foo'' ''w'' (ErrorPrinter_new, no_output))) \<and>
   FoundWarnings (fst (AddWarning ''a.proto'' 3 4 ''w'' (ErrorPrinter_new, no_output)))"
  by (simp add: FoundWarnings_def AddWarning_io_def AddWarning_pool_def AddWarning_def
      ErrorPrinter_new_def no_output_def AddErrorOrWarning_def put_line_def show_int_def)

text \<open>
  Claim C8 as stated fails. A path that cannot be opened is not tried as a logical name:
  where \<open>VirtualFileToDiskFile\<close> would map it back to a disk file the call fails all the
  same, and where it would not the diagnostic is the one of the \<open>CANNOT_OPEN\<close> case, not
  the one of a file outside every include path.
\<close>

theorem make_inputs_relative_cannot_open_counterexample:
  "DiskFileToVirtualFile unreadable_tree ''a.proto'' = CANNOT_OPEN \<and>
   VirtualFileToDiskFile unreadable_tree ''a.proto'' = Some ''/src/a.proto'' \<and>
   make_inputs_relative [''a.proto''] unreadable_tree no_output =
     (False, [''a.proto''],
      \<lparr>cerr = [''Could not map to virtual file: a.proto: Permission denied''], clog = []\<rparr>) \<and>
   DiskFileToVirtualFile project_tree ''/src/locked.proto'' = CANNOT_OPEN \<and>
   VirtualFileToDiskFile project_tree ''/src/locked.proto'' = None \<and>
   make_inputs_relative [''/src/locked.proto''] project_tree no_output =
     (False, [''/src/locked.proto''],
      \<lparr>cerr = [''Could not map to virtual file: /src/locked.proto: Permission denied''],
       clog = []\<rparr>) \<and>
   no_mapping_message ''/src/locked.proto'' =
     ''/src/locked.proto: File does not reside within any include path.''"
  by (simp add: unreadable_tree_def project_tree_def no_output_def put_line_def
      cannot_open_message_def no_mapping_message_def c_str_def)

lemma make_inputs_relative_mapped_prefix:
  assumes "\<forall>y \<in> set pre. \<exists>v. DiskFileToVirtualFile source_tree y = SUCCESS v"
  shows "make_inputs_relative (pre @ rest) source_tree io =
     (fst (make_inputs_relative rest source_tree io),
      map (virtual_name source_tree) pre @ fst (snd (make_inputs_relative rest source_tree io)),
      snd (snd (make_inputs_relative rest source_tree io)))"
  using assms
proof (induction pre)
  case Nil
  then show ?case by simp
next
  case (Cons y pre)
  then obtain v where "DiskFileToVirtualFile source_tree y = SUCCESS v" by auto
  with Cons show ?case by (simp add: virtual_name_def Let_def)
qed

text \<open>
  Claim C8, as amended. Let \<open>x\<close> be the first input that is not mapped successfully. If
  \<open>x\<close> does not reside under any search root (\<open>NO_MAPPING\<close>), the resolver asks whether
  \<open>x\<close>, read as a logical name, maps back to a disk file: if it does not, the call fails
  with the diagnostic that the file does not reside within any include path; if it does,
  \<open>x\<close> is accepted as it is, and the call succeeds when \<open>x\<close> is the last input. If \<open>x\<close>
  cannot be opened (\<open>CANNOT_OPEN\<close>), the call fails with the diagnostic of that case,
  without asking. A diagnostic names \<open>x\<close> by its bytes before the first NUL byte.
\<close>

theorem make_inputs_relative_no_mapping:
  assumes "\<forall>y \<in> set pre. \<exists>v. DiskFileToVirtualFile source_tree y = SUCCESS v"
  shows "(DiskFileToVirtualFile source_tree x = NO_MAPPING \<and>
          VirtualFileToDiskFile source_tree x = None \<longrightarrow>
            make_inputs_relative (pre @ x # rest) source_tree io =
              (False, map (virtual_name source_tree) pre @ x # rest,
               put_line std_cerr (no_mapping_message x) io)) \<and>
         (DiskFileToVirtualFile source_tree x = NO_MAPPING \<and>
          VirtualFileToDiskFile source_tree x \<noteq> None \<longrightarrow>
            make_inputs_relative (pre @ [x]) source_tree io =
              (True, map (virtual_name source_tree) pre @ [x], io)) \<and>
         (DiskFileToVirtualFile source_tree x = CANNOT_OPEN \<longrightarrow>
            make_inputs_relative (pre @ x # rest) source_tree io =
              (False, map (virtual_name source_tree) pre @ x # rest,
               put_line std_cerr (cannot_open_message source_tree x) io))"
  unfolding make_inputs_relative_mapped_prefix [OF assms]
  by auto

theorem make_inputs_relative_no_mapping_witness:
  "DiskFileToVirtualFile project_tree ''/src/a.proto'' = SUCCESS ''a.proto'' \<and>
   DiskFileToVirtualFile project_tree ''b.proto'' = NO_MAPPING \<and>
   VirtualFileToDiskFile project_tree ''b.proto'' = Some ''/src/b.proto'' \<and>
   make_inputs_relative [''/src/a.proto'', ''b.proto''] project_tree no_output =
     (True, [''a.proto'', ''b.proto''], no_output) \<and>
   DiskFileToVirtualFile project_tree ''c.proto'' = NO_MAPPING \<and>
   VirtualFileToDiskFile project_tree ''c.proto'' = None \<and>
   make_inputs_relative [''/src/a.proto'', ''c.proto'', ''b.proto''] project_tree no_output =
     (False, [''a.proto'', ''c.proto'', ''b.proto''],
      \<lparr>cerr = [''c.proto: File does not reside within any include path.''], clog = []\<rparr>) \<and>
   DiskFileToVirtualFile project_tree ''/src/locked.proto'' = CANNOT_OPEN \<and>
   make_inputs_relative [''/src/a.proto'', ''/src/locked.proto''] project_tree no_output =
     (False, [''a.proto'', ''/src/locked.proto''],
      \<lparr>cerr = [''Could not map to virtual file: /src/locked.proto: Permission denied''],
       clog = []\<rparr>) \<and>
   DiskFileToVirtualFile project_tree [CHR ''a'', CHR 0x00, CHR ''b''] = NO_MAPPING \<and>
   VirtualFileToDiskFile project_tree [CHR ''a'', CHR 0x00, CHR ''b''] = None \<and>
   make_inputs_relative [''/src/a.proto'', [CHR ''a'', CHR 0x00, CHR ''b'']] project_tree no_output =
     (False, [''a.proto'', [CHR ''a'', CHR 0x00, CHR ''b'']],
      \<lparr>cerr = [''a: File does not reside within any include path.''], clog = []\<rparr>)"
proof -
  have p: "\<forall>y \<in> set [''/src/a.proto'']. \<exists>v. DiskFileToVirtualFile project_tree y = SUCCESS v"
    by (simp add: project_tree_def)
  have b: "DiskFileToVirtualFile project_tree ''b.proto'' = NO_MAPPING"
    and c: "DiskFileToVirtualFile project_tree ''c.proto'' = NO_MAPPING"
    and l: "DiskFileToVirtualFile project_tree ''/src/locked.proto'' = CANNOT_OPEN"
    and vb: "VirtualFileToDiskFile project_tree ''b.proto'' = Some ''/src/b.proto''"
    and vc: "VirtualFileToDiskFile project_tree ''c.proto'' = None"
    and n: "DiskFileToVirtualFile project_tree [CHR ''a'', CHR 0x00, CHR ''b''] = NO_MAPPING"
    and vn: "VirtualFileToDiskFile project_tree [CHR ''a'', CHR 0x00, CHR ''b''] = None"
    by (simp_all add: project_tree_def)
  show ?thesis
    using make_inputs_relative_no_mapping [OF p, of "''b.proto''" "[]" no_output]
      make_inputs_relative_no_mapping [OF p, of "''c.proto''" "[''b.proto'']" no_output]
      make_inputs_relative_no_mapping [OF p, of "''/src/locked.proto''" "[]" no_output]
      make_inputs_relative_no_mapping [OF p, of "[CHR ''a'', CHR 0x00, CHR ''b'']" "[]" no_output]
      p b c l vb vc n vn
    by (simp add: virtual_name_def project_tree_def no_output_def put_line_def
        no_mapping_message_def cannot_open_message_def c_str_def)
qed

lemma deliver_cerr_mono: "set (cerr (snd s)) \<subseteq> set (cerr (snd (deliver r s)))"
  by (cases r)
    (auto simp: AddError_def AddWarning_def AddErrorOrWarning_def put_line_def Let_def)

lemma fold_deliver_cerr_mono: "set (cerr (snd s)) \<subseteq> set (cerr (snd (fold deliver rs s)))"
proof (induction rs arbitrary: s)
  case Nil
  show ?case by simp
next
  case (Cons r rs)
  show ?case using deliver_cerr_mono [of s r] Cons [of "deliver r s"] by auto
qed

lemma deliver_error_names_file:
  "\<exists>rest. filename @ '':'' @ rest \<in> set (cerr (snd (deliver (ReportError filename line column message) s)))"
proof (cases "line = - 1")
  case True
  then have "filename @ '':'' @ ('' '' @ message)
      \<in> set (cerr (snd (deliver (ReportError filename line column message) s)))"
    by (simp add: AddError_def AddErrorOrWarning_def put_line_def)
  then show ?thesis by blast
next
  case False
  then have "filename @ '':'' @
      (show_int (sint (line + 1)) @ '':'' @ show_int (sint (column + 1)) @ '': '' @ message)
      \<in> set (cerr (snd (deliver (ReportError filename line column message) s)))"
    by (simp add: AddError_def AddErrorOrWarning_def put_line_def)
  then show ?thesis by blast
qed

lemma fold_deliver_error_names_file:
  assumes "ReportError filename line column message \<in> set rs"
  shows "\<exists>rest. filename @ '':'' @ rest \<in> set (cerr (snd (fold deliver rs s)))"
  using assms
proof (induction rs arbitrary: s)
  case Nil
  then show ?case by simp
next
  case (Cons r rs)
  show ?case
  proof (cases "r = ReportError filename line column message")
    case True
    obtain rest where "filename @ '':'' @ rest \<in> set (cerr (snd (deliver r s)))"
      using deliver_error_names_file [of filename line column message s] True by auto
    then have "filename @ '':'' @ rest \<in> set (cerr (snd (fold deliver rs (deliver r s))))"
      using fold_deliver_cerr_mono [of "deliver r s" rs] by auto
    then show ?thesis by auto
  next
    case False
    with Cons.prems have "ReportError filename line column message \<in> set rs" by auto
    from Cons.IH [OF this, of "deliver r s"] show ?thesis by simp
  qed
qed

lemma parse_input_files_not_found:
  assumes "\<forall>y \<in> set pre. fst (FindFileByName descriptor_pool y) \<noteq> None"
    and "fst (FindFileByName descriptor_pool x) = None"
  shows "\<exists>s0 parsed. parse_input_files (pre @ x # rest) descriptor_pool parsed_files s =
           (False, parsed, fold deliver (snd (FindFileByName descriptor_pool x)) s0)"
  using assms(1)
proof (induction pre arbitrary: parsed_files s)
  case Nil
  have "parse_input_files ([] @ x # rest) descriptor_pool parsed_files s =
          (False, parsed_files, fold deliver (snd (FindFileByName descriptor_pool x)) s)"
    using assms(2) by (simp add: Let_def)
  then show ?case by blast
next
  case (Cons y pre)
  then obtain p where "fst (FindFileByName descriptor_pool y) = Some p" by auto
  moreover have "\<forall>y \<in> set pre. fst (FindFileByName descriptor_pool y) \<noteq> None"
    using Cons.prems by simp
  ultimately show ?case using Cons.IH by (simp add: Let_def)
qed

text \<open>
  Claim C9. Let the inputs map to \<open>pre @ x # rest\<close>, let the lookups of \<open>pre\<close> succeed and
  the lookup of \<open>x\<close> return \<open>nullptr\<close>, reporting an error for the file \<open>x\<close> to the
  collector it was given (the contract of the library's lookup). Then the entry point
  returns 1, the caller's \<open>Buffer\<close> is returned as it was passed (no resize is applied to
  its context), and \<open>std::cerr\<close> holds a line that starts with \<open>x\<close> and a colon.
\<close>

theorem unresolved_input_fails:
  assumes "make_inputs_relative input_files (source_tree_for lib includes_paths) io =
             (True, pre @ x # rest, io1)"
    and "\<forall>y \<in> set pre. fst (FindFileByName (descriptor_pool_for lib includes_paths) y) \<noteq> None"
    and "fst (FindFileByName (descriptor_pool_for lib includes_paths) x) = None"
    and "ReportError x line column message
           \<in> set (snd (FindFileByName (descriptor_pool_for lib includes_paths) x))"
  shows "\<exists>io'. write_descriptor_set_extern lib store input_files includes_paths output io =
                  Some (1, output, io') \<and>
               (\<exists>rest. x @ '':'' @ rest \<in> set (cerr io'))"
proof -
  let ?pool = "descriptor_pool_for lib includes_paths"
  from parse_input_files_not_found [OF assms(2,3), of rest "[]" "(ErrorPrinter_new, io1)"]
  obtain s0 parsed where
    p: "parse_input_files (pre @ x # rest) ?pool [] (ErrorPrinter_new, io1) =
          (False, parsed, fold deliver (snd (FindFileByName ?pool x)) s0)"
    by blast
  have "write_descriptor_set_extern lib store input_files includes_paths output io =
          Some (1, output, snd (fold deliver (snd (FindFileByName ?pool x)) s0))"
    using assms(1) p by (simp add: write_descriptor_set_extern_def Let_def)
  moreover have "\<exists>rest. x @ '':'' @ rest
      \<in> set (cerr (snd (fold deliver (snd (FindFileByName ?pool x)) s0)))"
    by (rule fold_deliver_error_names_file [OF assms(4)])
  ultimately show ?thesis by blast
qed

theorem unresolved_input_fails_witness:
  "make_inputs_relative [''/src/a.proto'', ''/src/missing.proto''] (source_tree_for example_lib [''/src''])
      no_output = (True, [''a.proto''] @ ''missing.proto'' # [], no_output) \<and>
   fst (FindFileByName (descriptor_pool_for example_lib [''/src'']) ''a.proto'') \<noteq> None \<and>
   fst (FindFileByName (descriptor_pool_for example_lib [''/src'']) ''missing.proto'') = None \<and>
   write_descriptor_set_extern example_lib trace_store [''/src/a.proto'', ''/src/missing.proto'']
       [''/src''] failing_buffer no_output =
     Some (1, failing_buffer,
           \<lparr>cerr = [''missing.proto: File not found.''],
            clog = [''a.proto:3:1: warning: Import left.proto is unused.'']\<rparr>)"
proof -
  have m: "make_inputs_relative [''/src/a.proto'', ''/src/missing.proto'']
      (source_tree_for example_lib [''/src'']) no_output =
        (True, [''a.proto''] @ ''missing.proto'' # [], no_output)"
    by (simp add: example_lib_def project_tree_def Let_def)
  have a: "\<forall>y \<in> set [''a.proto'']. fst (FindFileByName (descriptor_pool_for example_lib [''/src'']) y) \<noteq> None"
    by (simp add: example_lib_def example_pool_def)
  have n: "fst (FindFileByName (descriptor_pool_for example_lib [''/src'']) ''missing.proto'') = None"
    by (simp add: example_lib_def example_pool_def)
  have r: "ReportError ''missing.proto'' (- 1) 0 ''File not found.''
      \<in> set (snd (FindFileByName (descriptor_pool_for example_lib [''/src'']) ''missing.proto''))"
    by (simp add: example_lib_def example_pool_def)
  have e: "write_descriptor_set_extern example_lib trace_store [''/src/a.proto'', ''/src/missing.proto'']
       [''/src''] failing_buffer no_output =
     Some (1, failing_buffer,
           \<lparr>cerr = [''missing.proto: File not found.''],
            clog = [''a.proto:3:1: warning: Import left.proto is unused.'']\<rparr>)"
    using unresolved_input_fails [OF m a n r, of trace_store failing_buffer]
    by (auto simp: write_descriptor_set_extern_def example_lib_def example_pool_def project_tree_def
        no_output_def Let_def AddError_def AddWarning_def AddErrorOrWarning_def put_line_def
        ErrorPrinter_new_def show_int_def)
  from m a n e show ?thesis by simp
qed

lemma build_file_set_renamed:
  assumes "inj \<pi>" and ren: "renamed_files \<pi> files files'"
    and fin: "finite (reachable files (set parsed_files))"
  shows "build_file_set files' (map \<pi> parsed_files) = build_file_set files parsed_files"
proof -
  let ?R = "reachable files (set parsed_files)"
  have tot: "\<exists>ns out'. get_transitive_deps files d True True (seen, out) = Some (seen \<union> set ns, out')"
    if "d \<in> ?R" "card (?R - seen) \<le> card ?R" for d seen out
    using get_transitive_deps_total [OF fin reachable_closed that, of True True out] by blast
  have body: "get_transitive_deps files' (\<pi> d) True True (\<pi> ` seen, out) =
      map_option (\<lambda>st. (\<pi> ` fst st, snd st)) (get_transitive_deps files d True True (seen, out))"
    if "d \<in> ?R" "card (?R - seen) \<le> card ?R" for d seen out
    by (rule get_transitive_deps_renamed [OF assms(1) ren fin reachable_closed that])
  have c: "card (?R - {}) \<le> card ?R" by simp
  have "for_each (\<lambda>d. get_transitive_deps files' d True True) (map \<pi> parsed_files) (\<pi> ` {}, []) =
      map_option (\<lambda>st. (\<pi> ` fst st, snd st))
        (for_each (\<lambda>d. get_transitive_deps files d True True) parsed_files ({}, []))"
    by (rule for_each_renamed [where R = ?R and n = "card ?R" and \<pi> = \<pi>
          and body = "\<lambda>d. get_transitive_deps files d True True"
          and body' = "\<lambda>d. get_transitive_deps files' d True True",
          OF body tot fin reachable_refl c])
  then show ?thesis
    by (simp add: build_file_set_def option.map_comp o_def)
qed

lemma parse_input_files_renamed:
  assumes "renamed_pool \<pi> pool pool'"
  shows "parse_input_files inputs pool' (map \<pi> parsed_files) s =
     (fst (parse_input_files inputs pool parsed_files s),
      map \<pi> (fst (snd (parse_input_files inputs pool parsed_files s))),
      snd (snd (parse_input_files inputs pool parsed_files s)))"
proof (induction inputs arbitrary: parsed_files s)
  case Nil
  show ?case by simp
next
  case (Cons x inputs)
  have f: "FindFileByName pool' x =
      (map_option \<pi> (fst (FindFileByName pool x)), snd (FindFileByName pool x))"
    using assms by (simp add: renamed_pool_def)
  show ?case
  proof (cases "fst (FindFileByName pool x)")
    case None
    then show ?thesis by (simp add: f Let_def)
  next
    case (Some p)
    then show ?thesis
      using Cons.IH [of "parsed_files @ [p]"] by (simp add: f Let_def)
  qed
qed

lemma write_descriptor_set_vec:
  assumes "build_file_set files parsed_files = Some file_set"
    and "length (encode file_set) < 9223372036854775808"
    and "\<not> vec_faulted v"
  shows "\<exists>a. write_descriptor_set encode vec_store files parsed_files (vec_buffer place slack v) =
            Some (True, vec_buffer place slack a) \<and>
          vec_bytes a = encode file_set \<and> \<not> vec_faulted a"
proof -
  have "\<exists>this' v'. write_through vec_store (encode file_set)
          (BufferOutput_new, vec_buffer place slack v) =
            Some (True, this', vec_buffer place slack v') \<and>
          vec_bytes v' = [] @ encode file_set \<and> \<not> vec_faulted v'"
    by (rule write_through_vec) (use assms in \<open>simp_all add: BufferOutput_new_def\<close>)
  then show ?thesis
    using assms(1) by (auto simp: write_descriptor_set_def SerializeToCodedStream_def)
qed

text \<open>
  Claim C1. Two invocations of the entry point on the same input files and include paths,
  with the same source tree and wire encoding, may differ in what is not a logical input:
  the addresses of the descriptors (the pools are related by an injective renaming \<open>\<pi>\<close>)
  and the caller's buffer (where it places the region, the capacity it reports, what it
  held before). When the inputs map and parse and the encoding of the file set is shorter
  than \<open>2^63\<close> bytes, both invocations return 0 with the same diagnostics, no write leaves
  the region, and the caller's buffers hold the same bytes at the end: the wire encoding
  of the file set.
\<close>

theorem write_descriptor_set_extern_deterministic:
  assumes "inj \<pi>"
    and "source_tree_for lib' includes_paths = source_tree_for lib includes_paths"
    and "wire_encoding lib' = wire_encoding lib"
    and "renamed_pool \<pi> (descriptor_pool_for lib includes_paths)
           (descriptor_pool_for lib' includes_paths)"
    and "make_inputs_relative input_files (source_tree_for lib includes_paths) io =
           (True, inputs, io1)"
    and "parse_input_files inputs (descriptor_pool_for lib includes_paths) [] (ErrorPrinter_new, io1) =
           (True, parsed, printer, io2)"
    and "finite (reachable (descriptors (descriptor_pool_for lib includes_paths)) (set parsed))"
    and "build_file_set (descriptors (descriptor_pool_for lib includes_paths)) parsed = Some file_set"
    and "length (wire_encoding lib file_set) < 9223372036854775808"
    and "\<not> vec_faulted v" and "\<not> vec_faulted v'"
  shows "\<exists>a a'.
           write_descriptor_set_extern lib vec_store input_files includes_paths
             (vec_buffer place slack v) io = Some (0, vec_buffer place slack a, io2) \<and>
           write_descriptor_set_extern lib' vec_store input_files includes_paths
             (vec_buffer place' slack' v') io = Some (0, vec_buffer place' slack' a', io2) \<and>
           vec_bytes a = wire_encoding lib file_set \<and> vec_bytes a' = vec_bytes a \<and>
           \<not> vec_faulted a \<and> \<not> vec_faulted a'"
proof -
  let ?pool = "descriptor_pool_for lib includes_paths"
  let ?pool' = "descriptor_pool_for lib' includes_paths"
  have ren: "renamed_files \<pi> (descriptors ?pool) (descriptors ?pool')"
    using assms(4) by (simp add: renamed_pool_def)
  have p': "parse_input_files inputs ?pool' [] (ErrorPrinter_new, io1) =
      (True, map \<pi> parsed, printer, io2)"
    using parse_input_files_renamed [OF assms(4), of inputs "[]" "(ErrorPrinter_new, io1)"]
      assms(6) by simp
  have b': "build_file_set (descriptors ?pool') (map \<pi> parsed) = Some file_set"
    using build_file_set_renamed [OF assms(1) ren assms(7)] assms(8) by simp
  obtain a where
    w: "write_descriptor_set (wire_encoding lib) vec_store (descriptors ?pool) parsed
          (vec_buffer place slack v) = Some (True, vec_buffer place slack a)"
    and a: "vec_bytes a = wire_encoding lib file_set" "\<not> vec_faulted a"
    using write_descriptor_set_vec [where encode = "wire_encoding lib" and place = place
        and slack = slack, OF assms(8,9,10)] by blast
  obtain a' where
    w': "write_descriptor_set (wire_encoding lib) vec_store (descriptors ?pool') (map \<pi> parsed)
          (vec_buffer place' slack' v') = Some (True, vec_buffer place' slack' a')"
    and a': "vec_bytes a' = wire_encoding lib file_set" "\<not> vec_faulted a'"
    using write_descriptor_set_vec [where encode = "wire_encoding lib" and place = place'
        and slack = slack', OF b' assms(9,11)] by blast
  have "write_descriptor_set_extern lib vec_store input_files includes_paths
          (vec_buffer place slack v) io = Some (0, vec_buffer place slack a, io2)"
    using assms(5,6) w by (simp add: write_descriptor_set_extern_def Let_def)
  moreover have "write_descriptor_set_extern lib' vec_store input_files includes_paths
          (vec_buffer place' slack' v') io = Some (0, vec_buffer place' slack' a', io2)"
    using assms(2,3,5) p' w' by (simp add: write_descriptor_set_extern_def Let_def)
  ultimately show ?thesis using a a' by (intro exI [of _ a] exI [of _ a']) simp
qed

lemma finite_reachable_diamond_app: "finite (reachable diamond_files (set [0]))"
proof -
  have "reachable diamond_files (set [0]) \<subseteq> {0, 1, 2, 3}"
    by (rule reachable_subset_closed) (auto simp: diamond_files_def)
  then show ?thesis by (rule finite_subset) simp
qed

lemma build_file_set_diamond_app:
  "build_file_set diamond_files [0] =
     Some [descriptor_proto diamond_files True True 3, descriptor_proto diamond_files True True 1,
           descriptor_proto diamond_files True True 2, descriptor_proto diamond_files True True 0]"
  by (simp add: build_file_set_def get_transitive_deps_unfold diamond_files_def)

theorem write_descriptor_set_extern_deterministic_witness:
  "inj (\<lambda>p::nat. p + 16) \<and>
   renamed_pool (\<lambda>p. p + 16) (descriptor_pool_for example_lib [''/src''])
     (descriptor_pool_for moved_lib [''/src'']) \<and>
   make_inputs_relative [''/src/a.proto''] (source_tree_for example_lib [''/src'']) no_output =
     (True, [''a.proto''], no_output) \<and>
   fst (parse_input_files [''a.proto''] (descriptor_pool_for example_lib [''/src'']) []
          (ErrorPrinter_new, no_output)) \<and>
   finite (reachable (descriptors (descriptor_pool_for example_lib [''/src''])) (set [0])) \<and>
   write_descriptor_set_extern example_lib vec_store [''/src/a.proto''] [''/src'']
       (vec_buffer (\<lambda>k n. 0x1000) (\<lambda>k. 0) empty_vec) no_output =
     Some (0, vec_buffer (\<lambda>k n. 0x1000) (\<lambda>k. 0)
                \<lparr>vec_bytes = [10, 10, 11, 9], vec_addr = 0x1000, vec_calls = 2, vec_faulted = False\<rparr>,
           \<lparr>cerr = [], clog = [''a.proto:3:1: warning: Import left.proto is unused.'']\<rparr>) \<and>
   write_descriptor_set_extern moved_lib vec_store [''/src/a.proto''] [''/src'']
       (vec_buffer (\<lambda>k n. 0x2000 + 0x100 * of_nat k) (\<lambda>k. 4096) used_vec) no_output =
     Some (0, vec_buffer (\<lambda>k n. 0x2000 + 0x100 * of_nat k) (\<lambda>k. 4096)
                \<lparr>vec_bytes = [10, 10, 11, 9], vec_addr = 0x2100, vec_calls = 2, vec_faulted = False\<rparr>,
           \<lparr>cerr = [], clog = [''a.proto:3:1: warning: Import left.proto is unused.'']\<rparr>)"
proof -
  let ?io2 = "\<lparr>cerr = [], clog = [''a.proto:3:1: warning: Import left.proto is unused.'']\<rparr>"
  let ?fs = "[descriptor_proto diamond_files True True 3, descriptor_proto diamond_files True True 1,
           descriptor_proto diamond_files True True 2, descriptor_proto diamond_files True True 0]"
  have h1: "inj (\<lambda>p::nat. p + 16)" by (simp add: inj_def)
  have h2: "source_tree_for moved_lib [''/src''] = source_tree_for example_lib [''/src'']"
    by (simp add: moved_lib_def)
  have h3: "wire_encoding moved_lib = wire_encoding example_lib"
    by (simp add: moved_lib_def)
  have h4: "renamed_pool (\<lambda>p. p + 16) (descriptor_pool_for example_lib [''/src''])
     (descriptor_pool_for moved_lib [''/src''])"
    by (simp add: renamed_pool_def renamed_files_def moved_lib_def moved_pool_def moved_files_def
        example_lib_def example_pool_def)
  have h5: "make_inputs_relative [''/src/a.proto''] (source_tree_for example_lib [''/src'']) no_output =
     (True, [''a.proto''], no_output)"
    by (simp add: example_lib_def project_tree_def Let_def)
  have h6: "parse_input_files [''a.proto''] (descriptor_pool_for example_lib [''/src'']) []
      (ErrorPrinter_new, no_output) =
        (True, [0], \<lparr>found_errors = False, found_warnings = True\<rparr>, ?io2)"
    by (simp add: example_lib_def example_pool_def Let_def AddWarning_def AddErrorOrWarning_def
        put_line_def ErrorPrinter_new_def no_output_def show_int_def)
  have h7: "finite (reachable (descriptors (descriptor_pool_for example_lib [''/src''])) (set [0]))"
    using finite_reachable_diamond_app by (simp add: example_lib_def example_pool_def)
  have h8: "build_file_set (descriptors (descriptor_pool_for example_lib [''/src''])) [0] = Some ?fs"
    using build_file_set_diamond_app by (simp add: example_lib_def example_pool_def)
  have e: "wire_encoding example_lib ?fs = [10, 10, 11, 9]"
    by (simp add: example_lib_def descriptor_proto_def CopyTo_def CopyJsonNameTo_def
        CopySourceCodeInfoTo_def Add_def diamond_files_def)
  have h9: "length (wire_encoding example_lib ?fs) < 9223372036854775808"
    unfolding e by simp
  have h10: "\<not> vec_faulted empty_vec" "\<not> vec_faulted used_vec"
    by (simp_all add: empty_vec_def used_vec_def)
  from write_descriptor_set_extern_deterministic [OF h1 h2 h3 h4 h5 h6 h7 h8 h9 h10,
      of "\<lambda>k n. 0x1000" "\<lambda>k. 0" "\<lambda>k n. 0x2000 + 0x100 * of_nat k" "\<lambda>k. 4096"]
  obtain a a' where
    r: "write_descriptor_set_extern example_lib vec_store [''/src/a.proto''] [''/src'']
         (vec_buffer (\<lambda>k n. 0x1000) (\<lambda>k. 0) empty_vec) no_output =
           Some (0, vec_buffer (\<lambda>k n. 0x1000) (\<lambda>k. 0) a, ?io2)"
    and r': "write_descriptor_set_extern moved_lib vec_store [''/src/a.proto''] [''/src'']
         (vec_buffer (\<lambda>k n. 0x2000 + 0x100 * of_nat k) (\<lambda>k. 4096) used_vec) no_output =
           Some (0, vec_buffer (\<lambda>k n. 0x2000 + 0x100 * of_nat k) (\<lambda>k. 4096) a', ?io2)"
    and b: "vec_bytes a = [10, 10, 11, 9]" "vec_bytes a' = vec_bytes a"
    unfolding e by blast
  have w: "write_descriptor_set (wire_encoding example_lib) vec_store diamond_files [0]
         (vec_buffer (\<lambda>k n. 0x1000) (\<lambda>k. 0) empty_vec) =
       Some (True, vec_buffer (\<lambda>k n. 0x1000) (\<lambda>k. 0)
                \<lparr>vec_bytes = [10, 10, 11, 9], vec_addr = 0x1000, vec_calls = 2, vec_faulted = False\<rparr>)"
    using build_file_set_diamond_app e
    by (simp add: write_descriptor_set_def SerializeToCodedStream_def write_through.simps
        Next_def BackUp_def BufferOutput_new_def Let_def vec_resize_def vec_capacity_def
        vec_store_def empty_vec_def vec_buffer_def)
  have w': "write_descriptor_set (wire_encoding example_lib) vec_store moved_files [16]
         (vec_buffer (\<lambda>k n. 0x2000 + 0x100 * of_nat k) (\<lambda>k. 4096) used_vec) =
       Some (True, vec_buffer (\<lambda>k n. 0x2000 + 0x100 * of_nat k) (\<lambda>k. 4096)
                \<lparr>vec_bytes = [10, 10, 11, 9], vec_addr = 0x2100, vec_calls = 2, vec_faulted = False\<rparr>)"
    using build_file_set_renamed [OF h1 _ finite_reachable_diamond_app, of moved_files]
      build_file_set_diamond_app e
    by (simp add: write_descriptor_set_def SerializeToCodedStream_def write_through.simps
        Next_def BackUp_def BufferOutput_new_def Let_def vec_resize_def vec_capacity_def
        vec_store_def used_vec_def vec_buffer_def renamed_files_def moved_files_def)
  have d: "descriptors (descriptor_pool_for example_lib [''/src'']) = diamond_files"
    "descriptors (descriptor_pool_for moved_lib [''/src'']) = moved_files"
    by (simp_all add: example_lib_def example_pool_def moved_lib_def moved_pool_def)
  have h6': "parse_input_files [''a.proto''] (descriptor_pool_for moved_lib [''/src'']) []
      (ErrorPrinter_new, no_output) =
        (True, [16], \<lparr>found_errors = False, found_warnings = True\<rparr>, ?io2)"
    using parse_input_files_renamed [OF h4, of "[''a.proto'']" "[]" "(ErrorPrinter_new, no_output)"]
      h6 by simp
  have run: "write_descriptor_set_extern example_lib vec_store [''/src/a.proto''] [''/src'']
       (vec_buffer (\<lambda>k n. 0x1000) (\<lambda>k. 0) empty_vec) no_output =
     Some (0, vec_buffer (\<lambda>k n. 0x1000) (\<lambda>k. 0)
                \<lparr>vec_bytes = [10, 10, 11, 9], vec_addr = 0x1000, vec_calls = 2, vec_faulted = False\<rparr>,
           ?io2)"
    using h5 h6 w by (simp add: write_descriptor_set_extern_def Let_def d)
  have run': "write_descriptor_set_extern moved_lib vec_store [''/src/a.proto''] [''/src'']
       (vec_buffer (\<lambda>k n. 0x2000 + 0x100 * of_nat k) (\<lambda>k. 4096) used_vec) no_output =
     Some (0, vec_buffer (\<lambda>k n. 0x2000 + 0x100 * of_nat k) (\<lambda>k. 4096)
                \<lparr>vec_bytes = [10, 10, 11, 9], vec_addr = 0x2100, vec_calls = 2, vec_faulted = False\<rparr>,
           ?io2)"
    using h5 h6' w' by (simp add: write_descriptor_set_extern_def Let_def d h2 h3)
  from h1 h4 h5 h6 h7 run run' r show ?thesis by simp
qed

end
